theory Spec2Isabelle
  imports Main "HOL-Library.Word" "HOL-Library.AList"
begin

unbundle bit_operations_syntax

section \<open>Data model of server.go\<close>

text \<open>
  A \<^verbatim>\<open>[]byte\<close> is a list of 8-bit words. A \<^verbatim>\<open>float64\<close> is identified with its
  IEEE-754 bit pattern, the 64-bit word that \<^verbatim>\<open>math.Float64bits\<close> returns: that function
  is a bijection between the two, and the program does nothing else with its doubles.
\<close>

type_synonym byte = "8 word"
type_synonym uint64 = "64 word"
type_synonym float64 = "64 word"
type_synonym msg = "byte list"

text \<open>
  A buffered Go channel \<^verbatim>\<open>chan []byte\<close>: the queued values, oldest first, and the capacity
  given to \<^verbatim>\<open>make\<close>. Channels are reference values, so the server keeps them in a store
  (a list indexed by reference) and the \<^verbatim>\<open>clients\<close> map holds references.
\<close>

record chan =
  cbuf :: "msg list"
  ccap :: nat

type_synonym chan_ref = nat

text \<open>
  One running \<^verbatim>\<open>socketHandler\<close> goroutine that has passed the upgrade: the identifier of
  its request path, the channel it read from \<^verbatim>\<open>clients\<close> (\<open>None\<close> is Go's nil channel),
  whether its loop still runs, whether \<^verbatim>\<open>conn.Close()\<close> was called, whether the peer has
  closed the connection, and the frames written to the websocket so far.
\<close>

datatype hstate = Delivering | Closed

record handler =
  hid :: string
  hch :: "chan_ref option"
  hstate :: hstate
  conn_closed :: bool
  peer_gone :: bool
  frames :: "msg list"

text \<open>
  The shared state: the channel store, the global \<^verbatim>\<open>clients\<close> map (an association
  list with \<open>map_of\<close> as lookup; Go's iteration order over a map is unspecified, and the
  fan-out below does not depend on it), and the handler goroutines.
\<close>

record server =
  chans :: "chan list"
  clients :: "(string \<times> chan_ref) list"
  handlers :: "handler list"

datatype response = Status nat string | Upgraded | UpgradeFailed

datatype action =
  Register string
  | Socket string bool
  | Deliver nat bool
  | Publish msg
  | PeerClose nat
  | Health

text \<open>
  The external services of \<^verbatim>\<open>fileIn\<close>: \<^verbatim>\<open>geoip2.Open\<close> yields an error or a
  database, whose \<^verbatim>\<open>City\<close> method maps an address (\<open>None\<close> is a nil \<^verbatim>\<open>net.IP\<close>) to an
  error or a location; \<^verbatim>\<open>strings.TrimSpace\<close> and \<^verbatim>\<open>net.ParseIP\<close> are library functions.
\<close>

type_synonym ip = "byte list option"

record location =
  Latitude :: float64
  Longitude :: float64

type_synonym db = "ip \<Rightarrow> string + location"

record env =
  geoip2_Open :: "string + db"
  TrimSpace :: "string \<Rightarrow> string"
  ParseIP :: "string \<Rightarrow> ip"

text \<open>
  The state of the ingestion loop: the local \<^verbatim>\<open>prevIp\<close>, the arguments of the calls to
  \<^verbatim>\<open>db.City\<close> made so far, the lines printed with \<^verbatim>\<open>fmt.Println\<close>, and the shared
  state the loop publishes into.
\<close>

record ingest =
  prevIp :: string
  lookups :: "ip list"
  stdout :: "string list"
  hub :: server

datatype 'a flow = Continue 'a | Return 'a

section \<open>Record encoding (fileIn, lines 86 to 97)\<close>

definition Float64bits :: "float64 \<Rightarrow> uint64" where
  "Float64bits f = f"

definition Float64frombits :: "uint64 \<Rightarrow> float64" where
  "Float64frombits b = b"

text \<open>\<^verbatim>\<open>binary.LittleEndian.PutUint64\<close>: \<^verbatim>\<open>b[0] = byte(v)\<close>, \<^verbatim>\<open>b[1] = byte(v >> 8)\<close>, ...\<close>

definition PutUint64 :: "uint64 \<Rightarrow> byte list" where
  "PutUint64 v =
     [ucast v, ucast (drop_bit 8 v), ucast (drop_bit 16 v), ucast (drop_bit 24 v),
      ucast (drop_bit 32 v), ucast (drop_bit 40 v), ucast (drop_bit 48 v),
      ucast (drop_bit 56 v)]"

text \<open>
  \<^verbatim>\<open>distByte := byte(distMap[nfoundDistro])\<close> followed by the two appends. The conversion
  of an \<^verbatim>\<open>int\<close> to \<^verbatim>\<open>byte\<close> keeps the low eight bits.
\<close>

definition encode :: "int \<Rightarrow> float64 \<Rightarrow> float64 \<Rightarrow> msg" where
  "encode dist lat long =
     (let distByte = (word_of_int dist :: byte);
          latByte = PutUint64 (Float64bits lat);
          longByte = PutUint64 (Float64bits long)
      in [distByte] @ latByte @ longByte)"

text \<open>\<^verbatim>\<open>binary.LittleEndian.Uint64\<close>, the library's inverse of \<^verbatim>\<open>PutUint64\<close>.\<close>

definition Uint64 :: "byte list \<Rightarrow> uint64" where
  "Uint64 b =
     ucast (b ! 0) OR push_bit 8 (ucast (b ! 1)) OR push_bit 16 (ucast (b ! 2)) OR
     push_bit 24 (ucast (b ! 3)) OR push_bit 32 (ucast (b ! 4)) OR
     push_bit 40 (ucast (b ! 5)) OR push_bit 48 (ucast (b ! 6)) OR
     push_bit 56 (ucast (b ! 7))"

text \<open>
  Modelled from the spec: the decoder of the 17-byte frame. The repository's
  receiving side is not among the source files; the spec fixes the frame as byte 0 =
  category index, bytes 1 to 8 = latitude and bytes 9 to 16 = longitude, both little-endian
  doubles, and anything that is not 17 bytes long is no frame.
\<close>

definition decode :: "msg \<Rightarrow> (int \<times> float64 \<times> float64) option" where
  "decode b =
     (if length b = 17
      then Some (uint (b ! 0),
                 Float64frombits (Uint64 (take 8 (drop 1 b))),
                 Float64frombits (Uint64 (take 8 (drop 9 b))))
      else None)"

section \<open>The broadcast hub\<close>

definition make_chan :: "nat \<Rightarrow> chan" where
  "make_chan n = \<lparr>cbuf = [], ccap = n\<rparr>"

definition chan_full :: "chan \<Rightarrow> bool" where
  "chan_full c \<longleftrightarrow> ccap c \<le> length (cbuf c)"

text \<open>
  \<^verbatim>\<open>select { case ch <- msg: default: }\<close>: the send happens when the buffer has room
  and the default branch, which does nothing, is taken otherwise.
\<close>

definition try_send :: "msg \<Rightarrow> chan \<Rightarrow> chan" where
  "try_send m c = (if chan_full c then c else c\<lparr>cbuf := cbuf c @ [m]\<rparr>)"

text \<open>The fan-out of \<^verbatim>\<open>fileIn\<close> (lines 99 to 109), one critical section of \<^verbatim>\<open>clients_lock\<close>.\<close>

definition publish :: "msg \<Rightarrow> server \<Rightarrow> server" where
  "publish m s =
     s\<lparr>chans := fold (\<lambda>(ident, ch) cs. cs[ch := try_send m (cs ! ch)]) (clients s) (chans s)\<rparr>"

text \<open>
  \<^verbatim>\<open>registerHandler\<close>; the argument is the token \<^verbatim>\<open>randstr.Hex(16)\<close> returned.
  \<^verbatim>\<open>clients[id] = make(chan []byte, 10)\<close> allocates a new channel and stores its reference
  under the token, replacing whatever the map held there.
\<close>

definition registerHandler :: "string \<Rightarrow> server \<Rightarrow> response \<times> server" where
  "registerHandler ident s =
     (Status 200 ident,
      s\<lparr>chans := chans s @ [make_chan 10],
        clients := AList.update ident (length (chans s)) (clients s)\<rparr>)"

text \<open>
  \<^verbatim>\<open>socketHandler\<close> up to the start of its loop (lines 113 to 133). The boolean is the
  outcome of \<^verbatim>\<open>upgrader.Upgrade\<close>. \<^verbatim>\<open>ch := clients[id]\<close> yields the nil channel for a
  key the map does not hold.
\<close>

definition socketHandler :: "string \<Rightarrow> bool \<Rightarrow> server \<Rightarrow> response \<times> server" where
  "socketHandler ident upgrade_ok s =
     (if ident = [] then (Status 404 [], s)
      else
        let ch = map_of (clients s) ident in
        if \<not> upgrade_ok then (UpgradeFailed, s)
        else (Upgraded,
              s\<lparr>handlers := handlers s @
                  [\<lparr>hid = ident, hch = ch, hstate = Delivering, conn_closed = False,
                    peer_gone = False, frames = []\<rparr>]\<rparr>))"

text \<open>The deferred function of \<^verbatim>\<open>socketHandler\<close> (lines 135 to 142).\<close>

definition teardown :: "nat \<Rightarrow> server \<Rightarrow> server" where
  "teardown i s =
     (let h = handlers s ! i
      in s\<lparr>handlers := (handlers s)[i := h\<lparr>hstate := Closed, conn_closed := True\<rparr>],
           clients := AList.delete (hid h) (clients s)\<rparr>)"

text \<open>
  One iteration of the delivery loop of handler \<open>i\<close> (lines 144 to 152). The receive
  blocks (\<open>None\<close>: the handler cannot move) on the nil channel and on an empty buffer. The
  boolean is whether \<^verbatim>\<open>conn.WriteMessage\<close> returns no error, which is for the transport to
  say and the only thing the loop tests. A write that returns an error leaves the loop and
  runs the deferred function.
\<close>

definition deliver :: "nat \<Rightarrow> bool \<Rightarrow> server \<Rightarrow> server option" where
  "deliver i write_ok s =
     (if i < length (handlers s) \<and> hstate (handlers s ! i) = Delivering then
        (case hch (handlers s ! i) of
           None \<Rightarrow> None
         | Some r \<Rightarrow>
             (case cbuf (chans s ! r) of
                [] \<Rightarrow> None
              | val # rest \<Rightarrow>
                  let h = handlers s ! i;
                      s1 = s\<lparr>chans := (chans s)[r := (chans s ! r)\<lparr>cbuf := rest\<rparr>]\<rparr>
                  in if write_ok
                     then Some (s1\<lparr>handlers := (handlers s)[i := h\<lparr>frames := frames h @ [val]\<rparr>]\<rparr>)
                     else Some (teardown i s1)))
      else None)"

text \<open>
  The peer of handler \<open>i\<close> closes the underlying connection. No code runs: the handler
  never reads from the connection, and whether a later write returns an error is again the
  transport's answer.
\<close>

definition peer_close :: "nat \<Rightarrow> server \<Rightarrow> server" where
  "peer_close i s =
     (if i < length (handlers s)
      then s\<lparr>handlers := (handlers s)[i := (handlers s ! i)\<lparr>peer_gone := True\<rparr>]\<rparr>
      else s)"

text \<open>\<^verbatim>\<open>fmt.Sprint\<close> of a non-negative \<^verbatim>\<open>int\<close>: its decimal digits.\<close>

function Sprint :: "nat \<Rightarrow> string" where
  "Sprint n =
     (if n < 10 then [char_of (48 + n)] else Sprint (n div 10) @ [char_of (48 + n mod 10)])"
  by pat_completeness auto
termination
  by (relation "measure (\<lambda>n. n)") auto

definition healthHandler :: "server \<Rightarrow> response \<times> server" where
  "healthHandler s = (Status 200 (Sprint (length (clients s))), s)"

text \<open>\<^verbatim>\<open>main\<close>: \<^verbatim>\<open>clients = make(map[string]chan []byte)\<close>, no channel, no handler.\<close>

definition init :: server where
  "init = \<lparr>chans = [], clients = [], handlers = []\<rparr>"

text \<open>
  The goroutines interleave at the granularity of the functions above: each request
  handler, each fan-out and each loop iteration is one step. A step is \<open>None\<close> when the
  goroutine is blocked. The reads of \<^verbatim>\<open>clients\<close> that \<^verbatim>\<open>socketHandler\<close> and
  \<^verbatim>\<open>healthHandler\<close> make without holding \<^verbatim>\<open>clients_lock\<close> are taken as atomic.
\<close>

fun step :: "server \<Rightarrow> action \<Rightarrow> server option" where
  "step s (Register ident) = Some (snd (registerHandler ident s))"
| "step s (Socket ident upgrade_ok) = Some (snd (socketHandler ident upgrade_ok s))"
| "step s (Deliver i write_ok) = deliver i write_ok s"
| "step s (Publish m) = Some (publish m s)"
| "step s (PeerClose i) = Some (peer_close i s)"
| "step s Health = Some (snd (healthHandler s))"

fun run :: "server \<Rightarrow> action list \<Rightarrow> server option" where
  "run s [] = Some s"
| "run s (a # as) = (case step s a of None \<Rightarrow> None | Some s' \<Rightarrow> run s' as)"

section \<open>The ingestion loop (fileIn)\<close>

text \<open>\<^verbatim>\<open>strings.SplitN(line, "-", 2)[0]\<close>: the text before the first \<^verbatim>\<open>-\<close>, or the whole line.\<close>

definition getIp :: "string \<Rightarrow> string" where
  "getIp line = takeWhile (\<lambda>c. c \<noteq> CHR ''-'') line"

text \<open>
  \<^verbatim>\<open>regexp.MustCompile(`\/(.*?)\/`).FindAllString(line, -1)\<close>: the successive
  non-overlapping leftmost matches. A match opens at a \<^verbatim>\<open>/\<close> and, the star being lazy,
  closes at the next \<^verbatim>\<open>/\<close>; the search resumes after it. The dot does not match a
  newline, which abandons an open match. The first argument is the open match, if any.
\<close>

fun scan_segments :: "string option \<Rightarrow> string \<Rightarrow> string list" where
  "scan_segments None [] = []"
| "scan_segments None (c # cs) =
     (if c = CHR ''/'' then scan_segments (Some [c]) cs else scan_segments None cs)"
| "scan_segments (Some acc) [] = []"
| "scan_segments (Some acc) (c # cs) =
     (if c = CHR ''/'' then (acc @ [c]) # scan_segments None cs
      else if c = CHR 0x0A then scan_segments None cs
      else scan_segments (Some (acc @ [c])) cs)"

definition FindAllString :: "string \<Rightarrow> string list" where
  "FindAllString line = scan_segments None line"

text \<open>\<^verbatim>\<open>strings.SplitN(s, sep, -1)\<close> for a one-character separator: all the pieces.\<close>

fun SplitN :: "string \<Rightarrow> char \<Rightarrow> string list" where
  "SplitN [] sep = [[]]"
| "SplitN (c # cs) sep =
     (if c = sep then [] # SplitN cs sep
      else (c # hd (SplitN cs sep)) # tl (SplitN cs sep))"

text \<open>\<^verbatim>\<open>strings.Join(parts, "")\<close> and \<^verbatim>\<open>strings.Replace(s, "/", "", -1)\<close>.\<close>

definition Join :: "string list \<Rightarrow> string" where
  "Join parts = concat parts"

definition Replace_slash :: "string \<Rightarrow> string" where
  "Replace_slash s = filter (\<lambda>c. c \<noteq> CHR ''/'') s"

text \<open>Lines 78 to 80: the category name taken from a match.\<close>

definition nfoundDistro :: "string \<Rightarrow> string" where
  "nfoundDistro seg = Replace_slash (Join (SplitN seg CHR '' ''))"

definition distList :: "string list" where
  "distList =
     [''alpine'', ''archlinux'', ''archlinux32'', ''artix-linux'', ''blender'', ''centos'',
      ''clonezilla'', ''cpan'', ''cran'', ''ctan'', ''cygwin'', ''debian'', ''debian-cd'',
      ''eclipse'', ''freebsd'', ''gentoo'', ''gentoo-portage'', ''gparted'', ''ipfire'',
      ''isabelle'', ''linux'', ''linuxmint'', ''manjaro'', ''msys2'', ''odroid'', ''openbsd'',
      ''opensuse'', ''parrot'', ''raspbian'', ''RebornOS'', ''ros'', ''sabayon'', ''serenity'',
      ''slackware'', ''slitaz'', ''tdf'', ''templeos'', ''ubuntu'', ''ubuntu-cdimage'',
      ''ubuntu-ports'', ''ubuntu-releases'', ''videolan'', ''voidlinux'', ''zorinos'']"

text \<open>
  Lines 44 to 47: \<^verbatim>\<open>distMap[dist] = i\<close> for each index and entry, in order. Reading a
  key the map does not hold yields Go's zero value.
\<close>

definition build_distMap :: "string list \<Rightarrow> (string \<rightharpoonup> int)" where
  "build_distMap ds =
     fold (\<lambda>(i, dist) m. m(dist \<mapsto> int i)) (enumerate 0 ds) Map.empty"

definition distMap :: "string \<rightharpoonup> int" where
  "distMap = build_distMap distList"

definition distIndex :: "string \<Rightarrow> int" where
  "distIndex name = (case distMap name of None \<Rightarrow> 0 | Some i \<Rightarrow> i)"

text \<open>
  One pass through the body of the \<^verbatim>\<open>for scanner.Scan()\<close> loop (lines 55 to 109):
  \<open>Continue\<close> where the source reaches \<^verbatim>\<open>continue\<close> or the end of the body, \<open>Return\<close>
  where it returns from \<^verbatim>\<open>fileIn\<close>.
\<close>

definition iteration :: "env \<Rightarrow> db \<Rightarrow> string \<Rightarrow> ingest \<Rightarrow> ingest flow" where
  "iteration e City line st =
     (let ip = getIp line in
      if ip = prevIp st then Continue st
      else if ip = [] then Continue st
      else
        let st1 = st\<lparr>prevIp := ip\<rparr>;
            ipNew = ParseIP e (TrimSpace e ip);
            st2 = st1\<lparr>lookups := lookups st1 @ [ipNew]\<rparr>
        in case City ipNew of
             Inl err \<Rightarrow> Return (st2\<lparr>stdout := stdout st2 @ [err]\<rparr>)
           | Inr results \<Rightarrow>
               let listDistro = FindAllString line in
               if length listDistro < 2 then Continue st2
               else
                 let name = nfoundDistro (listDistro ! 1);
                     long = Longitude results;
                     lat = Latitude results;
                     m = encode (distIndex name) lat long
                 in Continue (st2\<lparr>hub := publish m (hub st2)\<rparr>))"

text \<open>
  The loop over the lines read, ended by the end of input or by a \<^verbatim>\<open>return\<close>. Here it
  runs with no other goroutine in between; in the interleaving above each of its fan-outs
  is a \<open>Publish\<close> step.
\<close>

fun fileIn_loop :: "env \<Rightarrow> db \<Rightarrow> string list \<Rightarrow> ingest \<Rightarrow> ingest" where
  "fileIn_loop e City [] st = st"
| "fileIn_loop e City (line # rest) st =
     (case iteration e City line st of
        Continue st' \<Rightarrow> fileIn_loop e City rest st'
      | Return st' \<Rightarrow> st')"

text \<open>\<^verbatim>\<open>fileIn\<close> on the lines that standard input delivers.\<close>

definition fileIn :: "env \<Rightarrow> string list \<Rightarrow> server \<Rightarrow> ingest" where
  "fileIn e feed s =
     (case geoip2_Open e of
        Inl err \<Rightarrow> \<lparr>prevIp = [], lookups = [], stdout = [err], hub = s\<rparr>
      | Inr City \<Rightarrow> fileIn_loop e City feed \<lparr>prevIp = [], lookups = [], stdout = [], hub = s\<rparr>)"

section \<open>Derived notions used in the statements\<close>

text \<open>The state a pass through the loop body ends in, whichever way it ends.\<close>

fun flow_state :: "'a flow \<Rightarrow> 'a" where
  "flow_state (Continue x) = x"
| "flow_state (Return x) = x"

text \<open>The channels the fan-out reaches.\<close>

definition registered :: "server \<Rightarrow> chan_ref set" where
  "registered s = snd ` set (clients s)"

text \<open>The records of the fan-outs in a run, in order.\<close>

fun published :: "action list \<Rightarrow> msg list" where
  "published [] = []"
| "published (Publish m # as) = m # published as"
| "published (a # as) = published as"

text \<open>
  What every reachable state satisfies: the keys of \<^verbatim>\<open>clients\<close> are distinct (it is a
  map), no two keys hold the same channel (each \<^verbatim>\<open>make\<close> is a new one), and every
  channel reference in the map or in a handler has been allocated.
\<close>

definition hub_inv :: "server \<Rightarrow> bool" where
  "hub_inv s \<longleftrightarrow>
     distinct (map fst (clients s)) \<and> distinct (map snd (clients s)) \<and>
     (\<forall>r \<in> registered s. r < length (chans s)) \<and>
     (\<forall>i < length (handlers s). \<forall>r. hch (handlers s ! i) = Some r \<longrightarrow> r < length (chans s))"

section \<open>Example runs\<close>

text \<open>
  Subscriber \<open>a\<close> registers and ten records fill its queue; then subscriber \<open>b\<close> registers.
\<close>

definition example_full_acts :: "action list" where
  "example_full_acts =
     [Register ''a'', Publish [1], Publish [2], Publish [3], Publish [4], Publish [5],
      Publish [6], Publish [7], Publish [8], Publish [9], Publish [10], Register ''b'']"

definition example_full :: server where
  "example_full =
     \<lparr>chans = [\<lparr>cbuf = [[1], [2], [3], [4], [5], [6], [7], [8], [9], [10]], ccap = 10\<rparr>,
               \<lparr>cbuf = [], ccap = 10\<rparr>],
      clients = [(''a'', 0), (''b'', 1)],
      handlers = []\<rparr>"

text \<open>
  Subscriber \<open>a\<close> registers and connects, and one record is published. Then the same token
  is drawn again by a second registration, a record is published and the first
  subscriber's loop delivers what its queue held.
\<close>

definition example_live_acts :: "action list" where
  "example_live_acts = [Register ''a'', Socket ''a'' True, Publish [1]]"

definition example_live :: server where
  "example_live =
     \<lparr>chans = [\<lparr>cbuf = [[1]], ccap = 10\<rparr>],
      clients = [(''a'', 0)],
      handlers = [\<lparr>hid = ''a'', hch = Some 0, hstate = Delivering, conn_closed = False,
                   peer_gone = False, frames = []\<rparr>]\<rparr>"

definition example_orphaned :: server where
  "example_orphaned =
     \<lparr>chans = [\<lparr>cbuf = [], ccap = 10\<rparr>, \<lparr>cbuf = [[2]], ccap = 10\<rparr>],
      clients = [(''a'', 1)],
      handlers = [\<lparr>hid = ''a'', hch = Some 0, hstate = Delivering, conn_closed = False,
                   peer_gone = False, frames = [[1]]\<rparr>]\<rparr>"

text \<open>Subscriber \<open>a\<close> registers and connects, and its peer closes the connection.\<close>

definition example_closed_acts :: "action list" where
  "example_closed_acts = [Register ''a'', Socket ''a'' True, PeerClose 0]"

definition example_peer_closed :: server where
  "example_peer_closed =
     \<lparr>chans = [\<lparr>cbuf = [], ccap = 10\<rparr>],
      clients = [(''a'', 0)],
      handlers = [\<lparr>hid = ''a'', hch = Some 0, hstate = Delivering, conn_closed = False,
                   peer_gone = True, frames = []\<rparr>]\<rparr>"

text \<open>
  After the close a record is published and the transport still accepts its write.
\<close>

definition example_served_after_close :: server where
  "example_served_after_close =
     \<lparr>chans = [\<lparr>cbuf = [], ccap = 10\<rparr>],
      clients = [(''a'', 0)],
      handlers = [\<lparr>hid = ''a'', hch = Some 0, hstate = Delivering, conn_closed = False,
                   peer_gone = True, frames = [[1]]\<rparr>]\<rparr>"

text \<open>The state after the write of the queued record failed for subscriber \<open>a\<close>.\<close>

definition example_torn_down :: server where
  "example_torn_down =
     \<lparr>chans = [\<lparr>cbuf = [], ccap = 10\<rparr>],
      clients = [],
      handlers = [\<lparr>hid = ''a'', hch = Some 0, hstate = Closed, conn_closed = True,
                   peer_gone = False, frames = []\<rparr>]\<rparr>"

section \<open>The conditions of the ordering guarantee\<close>

text \<open>
  What the ordering guarantee for handler \<open>i\<close> reading channel \<open>r\<close> asks of one step: a
  fan-out finds the subscriber registered and its queue not full, the handler's own writes
  return no error, and no other handler takes records from \<open>r\<close>. A run meets the conditions
  when each of its steps does and no step is blocked.
\<close>

fun undisturbed :: "nat \<Rightarrow> chan_ref \<Rightarrow> server \<Rightarrow> action \<Rightarrow> bool" where
  "undisturbed i r s (Publish m) \<longleftrightarrow> r \<in> registered s \<and> \<not> chan_full (chans s ! r)"
| "undisturbed i r s (Deliver j write_ok) \<longleftrightarrow>
     (if j = i then write_ok else hch (handlers s ! j) \<noteq> Some r)"
| "undisturbed i r s a \<longleftrightarrow> True"

fun fifo_run :: "nat \<Rightarrow> chan_ref \<Rightarrow> server \<Rightarrow> action list \<Rightarrow> bool" where
  "fifo_run i r s [] \<longleftrightarrow> True"
| "fifo_run i r s (a # as) \<longleftrightarrow>
     undisturbed i r s a \<and>
     (case step s a of None \<Rightarrow> False | Some s' \<Rightarrow> fifo_run i r s' as)"

definition reading :: "nat \<Rightarrow> chan_ref \<Rightarrow> server \<Rightarrow> bool" where
  "reading i r s \<longleftrightarrow>
     i < length (handlers s) \<and> hstate (handlers s ! i) = Delivering \<and>
     hch (handlers s ! i) = Some r"

definition observed :: "nat \<Rightarrow> chan_ref \<Rightarrow> server \<Rightarrow> msg list" where
  "observed i r s = frames (handlers s ! i) @ cbuf (chans s ! r)"

text \<open>
  Subscriber \<open>a\<close> has registered and connected; then three records are published and
  delivered, the first two queued together.
\<close>

definition example_connected :: server where
  "example_connected =
     \<lparr>chans = [\<lparr>cbuf = [], ccap = 10\<rparr>],
      clients = [(''a'', 0)],
      handlers = [\<lparr>hid = ''a'', hch = Some 0, hstate = Delivering, conn_closed = False,
                   peer_gone = False, frames = []\<rparr>]\<rparr>"

definition example_fifo_acts :: "action list" where
  "example_fifo_acts =
     [Publish [1], Publish [2], Deliver 0 True, Publish [3], Deliver 0 True, Deliver 0 True]"

definition example_delivered :: server where
  "example_delivered =
     \<lparr>chans = [\<lparr>cbuf = [], ccap = 10\<rparr>],
      clients = [(''a'', 0)],
      handlers = [\<lparr>hid = ''a'', hch = Some 0, hstate = Delivering, conn_closed = False,
                   peer_gone = False, frames = [[1], [2], [3]]\<rparr>]\<rparr>"

text \<open>
  Subscriber \<open>a\<close> registers and connects twice under its token; two records are published
  and each of the two loops takes one of them.
\<close>

definition example_two_acts :: "action list" where
  "example_two_acts =
     [Register ''a'', Socket ''a'' True, Socket ''a'' True, Publish [1], Publish [2]]"

definition example_two_queued :: server where
  "example_two_queued =
     \<lparr>chans = [\<lparr>cbuf = [[1], [2]], ccap = 10\<rparr>],
      clients = [(''a'', 0)],
      handlers = [\<lparr>hid = ''a'', hch = Some 0, hstate = Delivering, conn_closed = False,
                   peer_gone = False, frames = []\<rparr>,
                  \<lparr>hid = ''a'', hch = Some 0, hstate = Delivering, conn_closed = False,
                   peer_gone = False, frames = []\<rparr>]\<rparr>"

definition example_two_delivered :: server where
  "example_two_delivered =
     \<lparr>chans = [\<lparr>cbuf = [], ccap = 10\<rparr>],
      clients = [(''a'', 0)],
      handlers = [\<lparr>hid = ''a'', hch = Some 0, hstate = Delivering, conn_closed = False,
                   peer_gone = False, frames = [[1]]\<rparr>,
                  \<lparr>hid = ''a'', hch = Some 0, hstate = Delivering, conn_closed = False,
                   peer_gone = False, frames = [[2]]\<rparr>]\<rparr>"

text \<open>
  Subscriber \<open>a\<close> is connected, two records are published and the write of the first
  returns an error.
\<close>

definition example_write_failed :: server where
  "example_write_failed =
     \<lparr>chans = [\<lparr>cbuf = [[2]], ccap = 10\<rparr>],
      clients = [],
      handlers = [\<lparr>hid = ''a'', hch = Some 0, hstate = Closed, conn_closed = True,
                   peer_gone = False, frames = []\<rparr>]\<rparr>"

text \<open>
  Subscriber \<open>a\<close> is connected, its token is drawn again by another registration, and a
  record is published.
\<close>

definition example_unreached :: server where
  "example_unreached =
     \<lparr>chans = [\<lparr>cbuf = [], ccap = 10\<rparr>, \<lparr>cbuf = [[1]], ccap = 10\<rparr>],
      clients = [(''a'', 1)],
      handlers = [\<lparr>hid = ''a'', hch = Some 0, hstate = Delivering, conn_closed = False,
                   peer_gone = False, frames = []\<rparr>]\<rparr>"

section \<open>The ingestion loop: derived notions and an example feed\<close>

text \<open>The argument of \<^verbatim>\<open>db.City\<close> for a line: \<^verbatim>\<open>net.ParseIP(strings.TrimSpace(ip))\<close>.\<close>

definition resolved :: "env \<Rightarrow> string \<Rightarrow> ip" where
  "resolved e line = ParseIP e (TrimSpace e (getIp line))"

text \<open>
  An example environment: a resolver that rejects the nil address, as the MaxMind reader
  does, and locates every other address at latitude 51.5, longitude -0.1; an address
  parser that knows one address; and the trimming of blanks.
\<close>

definition example_TrimSpace :: "string \<Rightarrow> string" where
  "example_TrimSpace s =
     rev (dropWhile (\<lambda>c. c = CHR '' '') (rev (dropWhile (\<lambda>c. c = CHR '' '') s)))"

definition example_ParseIP :: "string \<Rightarrow> ip" where
  "example_ParseIP s =
     (if s = ''203.0.113.5''
      then Some [0, 0, 0, 0, 0, 0, 0, 0, 0, 0, 0xFF, 0xFF, 203, 0, 113, 5]
      else None)"

definition example_City :: db where
  "example_City a =
     (case a of
        None \<Rightarrow> Inl ''IP passed to Lookup cannot be nil''
      | Some b \<Rightarrow> Inr \<lparr>Latitude = 0x4049C00000000000, Longitude = 0xBFB999999999999A\<rparr>)"

definition example_env :: env where
  "example_env =
     \<lparr>geoip2_Open = Inr example_City, TrimSpace = example_TrimSpace, ParseIP = example_ParseIP\<rparr>"

definition example_addr :: ip where
  "example_addr = Some [0, 0, 0, 0, 0, 0, 0, 0, 0, 0, 0xFF, 0xFF, 203, 0, 113, 5]"

text \<open>
  Example lines: one with a single \<^verbatim>\<open>/.../ \<close> match, one whose address does not parse, one
  whose second match is a known category, and one whose second match is not.
\<close>

definition example_line_one :: string where
  "example_line_one = ''203.0.113.5 - GET /debian HTTP/1.1''"

definition example_line_bad :: string where
  "example_line_bad = ''bogus - - [10/Oct/2000:13:55:36 -0700] GET /debian/dists/ HTTP/1.1''"

definition example_line_good :: string where
  "example_line_good =
     ''203.0.113.5 - - [10/Oct/2000:13:55:36 -0700] GET /debian/dists/ HTTP/1.1''"

definition example_line_unknown :: string where
  "example_line_unknown = ''203.0.113.5 - GET /pub/ubuntu/focal/x.deb HTTP/1.1''"

text \<open>
  The loop starts with subscriber \<open>a\<close> connected; \<open>example_record c\<close> is the frame for
  category \<open>c\<close> at the example location.
\<close>

definition example_start :: ingest where
  "example_start = \<lparr>prevIp = [], lookups = [], stdout = [], hub = example_connected\<rparr>"

definition example_record :: "int \<Rightarrow> msg" where
  "example_record c =
     [word_of_int c, 0, 0, 0, 0, 0, 0xC0, 0x49, 0x40,
      0x9A, 0x99, 0x99, 0x99, 0x99, 0x99, 0xB9, 0xBF]"

definition example_received :: "int \<Rightarrow> server" where
  "example_received c =
     \<lparr>chans = [\<lparr>cbuf = [example_record c], ccap = 10\<rparr>],
      clients = [(''a'', 0)],
      handlers = [\<lparr>hid = ''a'', hch = Some 0, hstate = Delivering, conn_closed = False,
                   peer_gone = False, frames = []\<rparr>]\<rparr>"

section \<open>Little-endian encoding\<close>

lemma bit_low_byte:
  "bit (ucast (ucast (v :: uint64) :: byte) :: uint64) n = (n < 8 \<and> bit v n)"
  by (auto simp: bit_ucast_iff)

lemma bit_shifted_byte:
  "bit (push_bit k (ucast (ucast (drop_bit k (v :: uint64)) :: byte)) :: uint64) n =
     (k \<le> n \<and> n < k + 8 \<and> n < 64 \<and> bit v n)"
  by (auto simp: bit_push_bit_iff bit_ucast_iff bit_drop_bit_eq)

lemma Uint64_PutUint64: "Uint64 (PutUint64 v) = v"
proof (rule bit_word_eqI)
  fix n :: nat
  assume "n < LENGTH(64)"
  then have n: "n < 64" by simp
  show "bit (Uint64 (PutUint64 v)) n = bit v n"
  proof (cases "bit v n")
    case True
    with n show ?thesis
      unfolding Uint64_def PutUint64_def
      by (simp add: bit_or_iff bit_low_byte bit_shifted_byte) arith
  next
    case False
    then show ?thesis
      unfolding Uint64_def PutUint64_def
      by (simp add: bit_or_iff bit_low_byte bit_shifted_byte)
  qed
qed

lemma length_PutUint64: "length (PutUint64 v) = 8"
  by (simp add: PutUint64_def)

lemma PutUint64_nth:
  "i < 8 \<Longrightarrow> PutUint64 v ! i = ucast (drop_bit (8 * i) v)"
proof -
  assume "i < 8"
  then have "i \<in> set [0, 1, 2, 3, 4, 5, 6, 7]"
    by simp arith
  then show ?thesis
    by (auto simp: PutUint64_def)
qed

lemma encode_unfold:
  "encode c lat lon =
     word_of_int c # PutUint64 (Float64bits lat) @ PutUint64 (Float64bits lon)"
  by (simp add: encode_def)

lemma encode_nth_lat:
  "i < 8 \<Longrightarrow> encode c lat lon ! (1 + i) = ucast (drop_bit (8 * i) (Float64bits lat))"
  by (simp add: encode_unfold nth_append length_PutUint64 PutUint64_nth)

lemma encode_nth_lon:
  "i < 8 \<Longrightarrow> encode c lat lon ! (9 + i) = ucast (drop_bit (8 * i) (Float64bits lon))"
proof -
  assume i: "i < 8"
  have "encode c lat lon ! (9 + i) =
      (PutUint64 (Float64bits lat) @ PutUint64 (Float64bits lon)) ! (8 + i)"
    by (simp add: encode_unfold)
  also have "\<dots> = PutUint64 (Float64bits lon) ! i"
    by (simp add: nth_append length_PutUint64)
  finally show ?thesis
    using i by (simp add: PutUint64_nth)
qed

lemma decode_encode:
  assumes "0 \<le> c" and "c \<le> 255"
  shows "decode (encode c lat lon) = Some (c, lat, lon)"
proof -
  have len: "length (encode c lat lon) = 17"
    by (simp add: encode_unfold length_PutUint64)
  have c: "uint (encode c lat lon ! 0) = c"
    using assms by (simp add: encode_unfold uint_word_of_int take_bit_int_eq_self)
  have lat: "take 8 (drop 1 (encode c lat lon)) = PutUint64 (Float64bits lat)"
    by (simp add: encode_unfold length_PutUint64)
  have lon: "take 8 (drop 9 (encode c lat lon)) = PutUint64 (Float64bits lon)"
    by (simp add: encode_unfold length_PutUint64)
  show ?thesis
    unfolding decode_def lat lon Uint64_PutUint64
    using len c by (simp add: Float64bits_def Float64frombits_def)
qed

section \<open>The frame format\<close>

text \<open>
  C3. For every category index \<open>c\<close> between 0 and 255 and all doubles \<open>lat\<close>, \<open>lon\<close>
  (as bit patterns), the encoded record has 17 bytes: byte 0 is \<open>c\<close>; byte \<open>1 + i\<close> is the
  \<open>i\<close>-th least significant byte of the latitude and byte \<open>9 + i\<close> that of the longitude
  (little-endian); and decoding the record gives back \<open>c\<close>, \<open>lat\<close> and \<open>lon\<close> bit for bit.
\<close>

theorem encode_frame_roundtrip:
  assumes "0 \<le> c" and "c \<le> 255"
  shows "length (encode c lat lon) = 17 \<and>
         uint (encode c lat lon ! 0) = c \<and>
         (\<forall>i<8. encode c lat lon ! (1 + i) = ucast (drop_bit (8 * i) (Float64bits lat))) \<and>
         (\<forall>i<8. encode c lat lon ! (9 + i) = ucast (drop_bit (8 * i) (Float64bits lon))) \<and>
         decode (encode c lat lon) = Some (c, lat, lon)"
proof -
  have "length (encode c lat lon) = 17"
    by (simp add: encode_unfold length_PutUint64)
  moreover have "uint (encode c lat lon ! 0) = c"
    using assms by (simp add: encode_unfold uint_word_of_int take_bit_int_eq_self)
  moreover note decode_encode [OF assms, of lat lon]
  ultimately show ?thesis
    using encode_nth_lat encode_nth_lon by blast
qed

theorem encode_frame_roundtrip_witness:
  "(0::int) \<le> 37 \<and> (37::int) \<le> 255 \<and>
   encode 37 0x4049C00000000000 0xBFB999999999999A =
     [37, 0, 0, 0, 0, 0, 0xC0, 0x49, 0x40, 0x9A, 0x99, 0x99, 0x99, 0x99, 0x99, 0xB9, 0xBF] \<and>
   length (encode 37 0x4049C00000000000 0xBFB999999999999A) = 17 \<and>
   decode (encode 37 0x4049C00000000000 0xBFB999999999999A) =
     Some (37, 0x4049C00000000000, 0xBFB999999999999A)"
proof -
  have "encode 37 0x4049C00000000000 0xBFB999999999999A =
     [37, 0, 0, 0, 0, 0, 0xC0, 0x49, 0x40, 0x9A, 0x99, 0x99, 0x99, 0x99, 0x99, 0xB9, 0xBF]"
    by (simp add: encode_def PutUint64_def Float64bits_def drop_bit_eq_div)
  then show ?thesis
    using encode_frame_roundtrip [of 37 "0x4049C00000000000" "0xBFB999999999999A"]
    by simp
qed

section \<open>The fan-out\<close>

lemma length_fanout:
  "length (fold (\<lambda>(ident, ch) cs. cs[ch := try_send m (cs ! ch)]) cl cs) = length cs"
  by (induction cl arbitrary: cs) (auto split: prod.splits)

lemma fanout_nth:
  "distinct (map snd cl) \<Longrightarrow> r < length cs \<Longrightarrow>
   fold (\<lambda>(ident, ch) cs. cs[ch := try_send m (cs ! ch)]) cl cs ! r =
     (if r \<in> snd ` set cl then try_send m (cs ! r) else cs ! r)"
proof (induction cl arbitrary: cs)
  case Nil
  then show ?case by simp
next
  case (Cons x cl)
  obtain k ch where x: "x = (k, ch)" by (cases x)
  from Cons.prems have d: "distinct (map snd cl)" and nin: "ch \<notin> snd ` set cl"
    by (auto simp: x)
  have len: "r < length (cs[ch := try_send m (cs ! ch)])"
    using Cons.prems by simp
  show ?case
  proof (cases "r = ch")
    case True
    with nin Cons.IH [OF d len] Cons.prems show ?thesis
      by (simp add: x)
  next
    case False
    with Cons.IH [OF d len] show ?thesis
      by (simp add: x)
  qed
qed

lemma chans_publish:
  "hub_inv s \<Longrightarrow> r < length (chans s) \<Longrightarrow>
   chans (publish m s) ! r = (if r \<in> registered s then try_send m (chans s ! r) else chans s ! r)"
  by (simp add: publish_def hub_inv_def registered_def fanout_nth)

lemma publish_frame:
  "clients (publish m s) = clients s" "handlers (publish m s) = handlers s"
  "length (chans (publish m s)) = length (chans s)"
  by (simp_all add: publish_def length_fanout)

lemma inv_init: "hub_inv init"
  by (simp add: hub_inv_def init_def registered_def)

lemma inv_publish: "hub_inv s \<Longrightarrow> hub_inv (publish m s)"
  unfolding hub_inv_def registered_def
  by (simp add: publish_frame)

lemma snd_set_update:
  "snd ` set (AList.update k v al) \<subseteq> insert v (snd ` set al)"
  by (induction al) auto

lemma distinct_snd_update:
  "distinct (map snd al) \<Longrightarrow> v \<notin> snd ` set al \<Longrightarrow> distinct (map snd (AList.update k v al))"
proof (induction al)
  case Nil
  then show ?case by simp
next
  case (Cons x al)
  then show ?case
    using snd_set_update [of k v al] by (auto simp: image_iff) 
qed

lemma update_sndD:
  "(a, b) \<in> set (AList.update k v al) \<Longrightarrow> b = v \<or> b \<in> snd ` set al"
  using snd_set_update [of k v al] by force

lemma inv_register: "hub_inv s \<Longrightarrow> hub_inv (snd (registerHandler ident s))"
proof -
  assume w: "hub_inv s"
  let ?n = "length (chans s)"
  have fresh: "?n \<notin> snd ` set (clients s)"
    using w by (auto simp: hub_inv_def registered_def)
  show ?thesis
    unfolding hub_inv_def registered_def registerHandler_def
    using w fresh
    by (auto simp: hub_inv_def registered_def distinct_update distinct_snd_update
        less_Suc_eq dest!: update_sndD)
qed

lemma nth_upd: "xs[i := x] ! j = (if i = j \<and> i < length xs then x else xs ! j)"
  by (cases "i < length xs") (simp_all add: nth_list_update list_update_beyond)

lemma inv_socket: "hub_inv s \<Longrightarrow> hub_inv (snd (socketHandler ident up s))"
  unfolding hub_inv_def registered_def socketHandler_def
  by (auto simp: Let_def nth_append less_Suc_eq dest!: map_of_SomeD)

lemma inv_peer_close: "hub_inv s \<Longrightarrow> hub_inv (peer_close i s)"
  unfolding hub_inv_def registered_def peer_close_def
  by (auto simp: nth_upd)

lemma inv_health: "hub_inv s \<Longrightarrow> hub_inv (snd (healthHandler s))"
  by (simp add: healthHandler_def)

lemma inv_teardown: "hub_inv s \<Longrightarrow> hub_inv (teardown i s)"
  unfolding hub_inv_def registered_def teardown_def
  by (auto simp: Let_def AList.delete_eq distinct_map_filter nth_upd)

lemma inv_deliver: "hub_inv s \<Longrightarrow> deliver i ok s = Some s' \<Longrightarrow> hub_inv s'"
proof -
  assume w: "hub_inv s" and d: "deliver i ok s = Some s'"
  from d obtain r val rest where
    r: "hch (handlers s ! i) = Some r" and buf: "cbuf (chans s ! r) = val # rest" and
    i: "i < length (handlers s)"
    by (auto simp: deliver_def split: if_splits option.splits list.splits)
  let ?s1 = "s\<lparr>chans := (chans s)[r := (chans s ! r)\<lparr>cbuf := rest\<rparr>]\<rparr>"
  have w1: "hub_inv ?s1"
    using w by (simp add: hub_inv_def registered_def)
  have "s' = ?s1\<lparr>handlers := (handlers s)[i := (handlers s ! i)\<lparr>frames := frames (handlers s ! i) @ [val]\<rparr>]\<rparr>
      \<or> s' = teardown i ?s1"
    using d r buf i by (auto simp: deliver_def Let_def split: if_splits)
  then show "hub_inv s'"
  proof
    assume "s' = ?s1\<lparr>handlers := (handlers s)[i := (handlers s ! i)\<lparr>frames := frames (handlers s ! i) @ [val]\<rparr>]\<rparr>"
    then show ?thesis
      using w1 by (auto simp: hub_inv_def registered_def nth_upd)
  next
    assume "s' = teardown i ?s1"
    then show ?thesis
      using w1 inv_teardown by simp
  qed
qed

lemma inv_step: "hub_inv s \<Longrightarrow> step s a = Some s' \<Longrightarrow> hub_inv s'"
  by (cases a)
    (auto simp: inv_register inv_socket inv_publish inv_peer_close inv_health dest: inv_deliver)

lemma inv_run: "hub_inv s \<Longrightarrow> run s acts = Some s' \<Longrightarrow> hub_inv s'"
proof (induction acts arbitrary: s)
  case Nil
  then show ?case by simp
next
  case (Cons a acts)
  then show ?case
    by (auto split: option.splits dest: inv_step)
qed

lemma inv_reachable: "run init acts = Some s \<Longrightarrow> hub_inv s"
  using inv_run inv_init by blast


lemma chans_publish_unregistered:
  "hub_inv s \<Longrightarrow> r < length (chans s) \<Longrightarrow> r \<notin> registered s \<Longrightarrow>
   chans (publish m s) ! r = chans s ! r"
  by (simp add: chans_publish)

text \<open>
  C1. In every reachable state, a fan-out is never blocked and changes neither the
  registry nor any handler (nothing is reported, nothing is kept for a retry). For every
  registered subscriber: if its queue is full the queue is left exactly as it was (the
  record is dropped for it), and if its queue is not full the record is appended to it,
  whatever the state of the other subscribers' queues.
\<close>

theorem publish_drop_on_full:
  assumes "run init acts = Some s" and "(ident, r) \<in> set (clients s)"
  shows "step s (Publish m) = Some (publish m s) \<and>
         clients (publish m s) = clients s \<and>
         handlers (publish m s) = handlers s \<and>
         (chan_full (chans s ! r) \<longrightarrow> chans (publish m s) ! r = chans s ! r) \<and>
         (\<not> chan_full (chans s ! r) \<longrightarrow>
            chans (publish m s) ! r = (chans s ! r)\<lparr>cbuf := cbuf (chans s ! r) @ [m]\<rparr>)"
proof -
  have w: "hub_inv s"
    using assms(1) by (rule inv_reachable)
  have reg: "r \<in> registered s"
    using assms(2) by (force simp: registered_def)
  with w have "r < length (chans s)"
    by (simp add: hub_inv_def)
  with w reg have "chans (publish m s) ! r = try_send m (chans s ! r)"
    by (simp add: chans_publish)
  then show ?thesis
    by (simp add: publish_frame try_send_def)
qed

lemma run_example_full: "run init example_full_acts = Some example_full"
  by (simp add: example_full_acts_def example_full_def init_def registerHandler_def
      publish_def try_send_def chan_full_def make_chan_def)

theorem publish_drop_on_full_witness:
  "run init example_full_acts = Some example_full \<and>
   (''a'', 0) \<in> set (clients example_full) \<and> (''b'', 1) \<in> set (clients example_full) \<and>
   chan_full (chans example_full ! 0) \<and> \<not> chan_full (chans example_full ! 1) \<and>
   step example_full (Publish [11]) = Some (publish [11] example_full) \<and>
   chans (publish [11] example_full) ! 0 = chans example_full ! 0 \<and>
   chans (publish [11] example_full) ! 1 = \<lparr>cbuf = [[11]], ccap = 10\<rparr>"
proof -
  have a: "(''a'', 0) \<in> set (clients example_full)"
    and b: "(''b'', 1) \<in> set (clients example_full)"
    by (simp_all add: example_full_def)
  have full: "chan_full (chans example_full ! 0)" "\<not> chan_full (chans example_full ! 1)"
    by (simp_all add: example_full_def chan_full_def)
  show ?thesis
    using publish_drop_on_full [OF run_example_full a, of "[11]"]
      publish_drop_on_full [OF run_example_full b, of "[11]"] a b full run_example_full
    by (simp add: example_full_def)
qed

section \<open>Registration with a token already in use\<close>

lemma registered_update:
  "registered (s\<lparr>clients := AList.update k v (clients s)\<rparr>) \<subseteq> insert v (registered s)"
  by (simp add: registered_def snd_set_update)

lemma orphan_step:
  assumes w: "hub_inv s" and r: "r < length (chans s)" and o: "r \<notin> registered s"
    and st: "step s a = Some s'"
  shows "r < length (chans s') \<and> r \<notin> registered s' \<and>
         (\<exists>k. cbuf (chans s' ! r) = drop k (cbuf (chans s ! r)))"
proof (cases a)
  case (Register ident)
  then have e: "s' = snd (registerHandler ident s)"
    using st by simp
  have "cbuf (chans s' ! r) = drop 0 (cbuf (chans s ! r))"
    using r by (simp add: e registerHandler_def nth_append)
  moreover have "r \<notin> registered s'"
    using r o snd_set_update [of ident "length (chans s)" "clients s"]
    by (auto simp: e registerHandler_def registered_def)
  moreover have "r < length (chans s')"
    using r by (simp add: e registerHandler_def)
  ultimately show ?thesis by blast
next
  case (Socket ident up)
  then have e: "s' = snd (socketHandler ident up s)"
    using st by simp
  have "cbuf (chans s' ! r) = drop 0 (cbuf (chans s ! r))"
    by (simp add: e socketHandler_def Let_def)
  moreover have "r \<notin> registered s'" "r < length (chans s')"
    using r o by (simp_all add: e socketHandler_def Let_def registered_def)
  ultimately show ?thesis by blast
next
  case (Deliver i ok)
  from st obtain q val rest where
    q: "hch (handlers s ! i) = Some q" and buf: "cbuf (chans s ! q) = val # rest"
    by (auto simp: Deliver deliver_def split: if_splits option.splits list.splits)
  have len: "r < length (chans s')"
    using st r q buf
    by (auto simp: Deliver deliver_def teardown_def Let_def split: if_splits)
  have reg: "r \<notin> registered s'"
    using st o q buf
    by (auto simp: Deliver deliver_def teardown_def Let_def registered_def AList.delete_eq
        split: if_splits)
  have ch: "chans s' = (chans s)[q := (chans s ! q)\<lparr>cbuf := rest\<rparr>]"
    using st q buf
    by (auto simp: Deliver deliver_def teardown_def Let_def split: if_splits)
  have "cbuf (chans s' ! r) = drop (if q = r then 1 else 0) (cbuf (chans s ! r))"
    using r buf by (auto simp: ch nth_upd)
  with len reg show ?thesis by blast
next
  case (Publish m)
  then have e: "s' = publish m s"
    using st by simp
  have "cbuf (chans s' ! r) = drop 0 (cbuf (chans s ! r))"
    using w r o by (simp add: e chans_publish)
  moreover have "r \<notin> registered s'" "r < length (chans s')"
    using r o by (simp_all add: e publish_frame registered_def)
  ultimately show ?thesis by blast
next
  case (PeerClose i)
  then have e: "s' = peer_close i s"
    using st by simp
  have "cbuf (chans s' ! r) = drop 0 (cbuf (chans s ! r))"
    by (simp add: e peer_close_def)
  moreover have "r \<notin> registered s'" "r < length (chans s')"
    using r o by (simp_all add: e peer_close_def registered_def)
  ultimately show ?thesis by blast
next
  case Health
  then have e: "s' = s"
    using st by (simp add: healthHandler_def)
  have "cbuf (chans s' ! r) = drop 0 (cbuf (chans s ! r))"
    by (simp add: e)
  with r o show ?thesis
    unfolding e by blast
qed

lemma orphan_run:
  "hub_inv s \<Longrightarrow> r < length (chans s) \<Longrightarrow> r \<notin> registered s \<Longrightarrow> run s acts = Some s' \<Longrightarrow>
   r < length (chans s') \<and> r \<notin> registered s' \<and>
   (\<exists>k. cbuf (chans s' ! r) = drop k (cbuf (chans s ! r)))"
proof (induction acts arbitrary: s)
  case Nil
  then have "cbuf (chans s' ! r) = drop 0 (cbuf (chans s ! r))" by simp
  with Nil show ?case by fastforce
next
  case (Cons a acts)
  from Cons.prems(4) obtain s1 where s1: "step s a = Some s1" and rest: "run s1 acts = Some s'"
    by (auto split: option.splits)
  from orphan_step [OF Cons.prems(1-3) s1] obtain j where
    a1: "r < length (chans s1)" "r \<notin> registered s1"
    and j: "cbuf (chans s1 ! r) = drop j (cbuf (chans s ! r))"
    by blast
  have w1: "hub_inv s1"
    using Cons.prems(1) s1 by (rule inv_step)
  from Cons.IH [OF w1 a1 rest] obtain k where
    "r < length (chans s')" "r \<notin> registered s'"
    and "cbuf (chans s' ! r) = drop k (cbuf (chans s1 ! r))"
    by blast
  then show ?case
    using j by (auto intro: exI [of _ "k + j"] simp: add.commute)
qed

lemma deliver_blocked_empty:
  "hch (handlers s ! i) = Some r \<Longrightarrow> cbuf (chans s ! r) = [] \<Longrightarrow> deliver i ok s = None"
  by (simp add: deliver_def)

lemma register_overwrites:
  assumes w: "hub_inv s" and old: "map_of (clients s) ident = Some r"
  shows "map_of (clients (snd (registerHandler ident s))) ident = Some (length (chans s))"
    and "length (chans s) \<noteq> r"
    and "r \<notin> registered (snd (registerHandler ident s))"
    and "chans (snd (registerHandler ident s)) ! r = chans s ! r"
    and "r < length (chans (snd (registerHandler ident s)))"
proof -
  from old have mem: "(ident, r) \<in> set (clients s)"
    by (rule map_of_SomeD)
  then have "r \<in> registered s"
    by (force simp: registered_def)
  with w have r: "r < length (chans s)"
    by (simp add: hub_inv_def)
  show "map_of (clients (snd (registerHandler ident s))) ident = Some (length (chans s))"
    by (simp add: registerHandler_def update_conv')
  show "length (chans s) \<noteq> r"
    using r by simp
  show "chans (snd (registerHandler ident s)) ! r = chans s ! r"
    using r by (simp add: registerHandler_def nth_append)
  show "r < length (chans (snd (registerHandler ident s)))"
    using r by (simp add: registerHandler_def)
  show "r \<notin> registered (snd (registerHandler ident s))"
  proof
    assume "r \<in> registered (snd (registerHandler ident s))"
    then obtain k where k: "(k, r) \<in> set (AList.update ident (length (chans s)) (clients s))"
      by (auto simp: registered_def registerHandler_def)
    have dk: "distinct (map fst (clients s))" and ds: "distinct (map snd (clients s))"
      using w by (simp_all add: hub_inv_def)
    have "map_of (AList.update ident (length (chans s)) (clients s)) k = Some r"
      using k dk by (simp add: distinct_update)
    then have kr: "k \<noteq> ident \<and> map_of (clients s) k = Some r"
      using r by (auto simp: update_conv' split: if_splits)
    then have "(k, r) \<in> set (clients s)"
      by (auto dest: map_of_SomeD)
    with mem ds have "k = ident"
      by (metis eq_key_imp_eq_value prod.collapse distinct_map inj_onD fst_conv snd_conv)
    with kr show False by simp
  qed
qed

lemmas hub_defs = init_def registerHandler_def socketHandler_def publish_def try_send_def
  chan_full_def make_chan_def deliver_def teardown_def peer_close_def healthHandler_def

lemma run_example_live: "run init example_live_acts = Some example_live"
  by (simp add: example_live_acts_def example_live_def hub_defs)

lemma run_example_orphaned:
  "run (snd (registerHandler ''a'' example_live)) [Publish [2], Deliver 0 True] =
     Some example_orphaned"
  by (simp add: example_live_def example_orphaned_def hub_defs)

text \<open>
  C10. In a reachable state where the token \<open>ident\<close> already maps to channel \<open>r\<close>, a
  registration that draws \<open>ident\<close> again answers 200 with the token as usual and stores a
  new channel under it; no handler changes and channel \<open>r\<close> keeps its content. From then
  on, whatever happens, \<open>r\<close> is not in the registry (no fan-out reaches it), its queue only
  loses elements, and once that queue is empty every handler reading from \<open>r\<close> is blocked.
\<close>

theorem register_collision_orphans:
  assumes "run init acts = Some s" and "map_of (clients s) ident = Some r"
    and "run (snd (registerHandler ident s)) later = Some s'"
  shows "fst (registerHandler ident s) = Status 200 ident \<and>
         map_of (clients (snd (registerHandler ident s))) ident = Some (length (chans s)) \<and>
         length (chans s) \<noteq> r \<and>
         handlers (snd (registerHandler ident s)) = handlers s \<and>
         chans (snd (registerHandler ident s)) ! r = chans s ! r \<and>
         r \<notin> registered s' \<and>
         (\<exists>k. cbuf (chans s' ! r) = drop k (cbuf (chans s ! r))) \<and>
         (\<forall>i ok. hch (handlers s' ! i) = Some r \<and> cbuf (chans s' ! r) = [] \<longrightarrow>
            deliver i ok s' = None)"
proof -
  have w: "hub_inv s"
    using assms(1) by (rule inv_reachable)
  have w': "hub_inv (snd (registerHandler ident s))"
    using w by (rule inv_register)
  note o = register_overwrites [OF w assms(2)]
  from orphan_run [OF w' o(5) o(3) assms(3)]
  have "r \<notin> registered s'" "\<exists>k. cbuf (chans s' ! r) = drop k (cbuf (chans s ! r))"
    by (simp_all add: o(4))
  moreover have "fst (registerHandler ident s) = Status 200 ident"
    "handlers (snd (registerHandler ident s)) = handlers s"
    by (simp_all add: registerHandler_def)
  ultimately show ?thesis
    using o(1,2,4) deliver_blocked_empty by blast
qed


theorem register_collision_orphans_witness:
  "run init example_live_acts = Some example_live \<and>
   map_of (clients example_live) ''a'' = Some 0 \<and>
   run (snd (registerHandler ''a'' example_live)) [Publish [2], Deliver 0 True] =
     Some example_orphaned \<and>
   fst (registerHandler ''a'' example_live) = Status 200 ''a'' \<and>
   map_of (clients (snd (registerHandler ''a'' example_live))) ''a'' = Some 1 \<and>
   0 \<notin> registered example_orphaned \<and>
   cbuf (chans example_orphaned ! 0) = [] \<and>
   hch (handlers example_orphaned ! 0) = Some 0 \<and>
   deliver 0 True example_orphaned = None \<and> deliver 0 False example_orphaned = None"
proof -
  have l: "map_of (clients example_live) ''a'' = Some 0"
    by (simp add: example_live_def)
  have e: "cbuf (chans example_orphaned ! 0) = []" "hch (handlers example_orphaned ! 0) = Some 0"
    by (simp_all add: example_orphaned_def)
  have n: "length (chans example_live) = 1"
    by (simp add: example_live_def)
  show ?thesis
    using register_collision_orphans [OF run_example_live l run_example_orphaned]
      run_example_live run_example_orphaned l e n
    by simp
qed

section \<open>The upgrade request and the teardown\<close>

text \<open>
  C4, evaluated on the code. The request \<^verbatim>\<open>/socket/deadbeef\<close> arrives while the registry
  is empty and the upgrade succeeds: the handler does not answer 404, it upgrades the
  connection and starts a loop on the nil channel, which can never move. Only the empty
  identifier is answered with 404.
\<close>

theorem socketHandler_unknown_id:
  "socketHandler ''deadbeef'' True init =
     (Upgraded,
      \<lparr>chans = [], clients = [],
       handlers = [\<lparr>hid = ''deadbeef'', hch = None, hstate = Delivering, conn_closed = False,
                    peer_gone = False, frames = []\<rparr>]\<rparr>) \<and>
   deliver 0 True (snd (socketHandler ''deadbeef'' True init)) = None \<and>
   deliver 0 False (snd (socketHandler ''deadbeef'' True init)) = None \<and>
   socketHandler [] True init = (Status 404 [], init)"
  by (simp add: hub_defs)

lemma teardown_on_failed_write:
  assumes "i < length (handlers s)" and "hstate (handlers s ! i) = Delivering"
    and "hch (handlers s ! i) = Some r" and "cbuf (chans s ! r) \<noteq> []"
  shows "\<exists>s'. deliver i False s = Some s' \<and> hstate (handlers s' ! i) = Closed \<and>
           conn_closed (handlers s' ! i) \<and> map_of (clients s') (hid (handlers s ! i)) = None"
proof -
  from assms(4) obtain val rest where buf: "cbuf (chans s ! r) = val # rest"
    by (cases "cbuf (chans s ! r)") auto
  let ?s1 = "s\<lparr>chans := (chans s)[r := (chans s ! r)\<lparr>cbuf := rest\<rparr>]\<rparr>"
  have "deliver i False s = Some (teardown i ?s1)"
    using assms buf by (auto simp: deliver_def Let_def)
  moreover have "hstate (handlers (teardown i ?s1) ! i) = Closed"
    "conn_closed (handlers (teardown i ?s1) ! i)"
    "map_of (clients (teardown i ?s1)) (hid (handlers s ! i)) = None"
    using assms(1) by (simp_all add: teardown_def Let_def delete_conv')
  ultimately show ?thesis by blast
qed

lemma loop_goes_on_after_write:
  assumes "deliver i True s = Some s'"
  shows "hstate (handlers s' ! i) = Delivering \<and>
         conn_closed (handlers s' ! i) = conn_closed (handlers s ! i) \<and>
         clients s' = clients s"
proof -
  from assms obtain r val rest where
    i: "i < length (handlers s)" "hstate (handlers s ! i) = Delivering"
    and r: "hch (handlers s ! i) = Some r" and buf: "cbuf (chans s ! r) = val # rest"
    by (auto simp: deliver_def split: if_splits option.splits list.splits)
  then have "s' = s\<lparr>chans := (chans s)[r := (chans s ! r)\<lparr>cbuf := rest\<rparr>],
      handlers := (handlers s)[i := (handlers s ! i)\<lparr>frames := frames (handlers s ! i) @ [val]\<rparr>]\<rparr>"
    using assms by (simp add: deliver_def Let_def)
  then show ?thesis
    using i by simp
qed

lemma peer_close_inert:
  "clients (peer_close j s) = clients s \<and> chans (peer_close j s) = chans s \<and>
   map hstate (handlers (peer_close j s)) = map hstate (handlers s) \<and>
   map conn_closed (handlers (peer_close j s)) = map conn_closed (handlers s)"
  by (auto simp: peer_close_def list_eq_iff_nth_eq nth_list_update)

lemma key_removed_only_by_teardown:
  assumes "step s a = Some s'" and "k \<in> fst ` set (clients s)" and "k \<notin> fst ` set (clients s')"
  shows "\<exists>i. a = Deliver i False \<and> i < length (handlers s) \<and> hid (handlers s ! i) = k \<and>
           hstate (handlers s ! i) = Delivering \<and>
           hstate (handlers s' ! i) = Closed \<and> conn_closed (handlers s' ! i)"
proof (cases a)
  case (Register ident)
  then have c: "clients s' = AList.update ident (length (chans s)) (clients s)"
    using assms(1) by (auto simp: registerHandler_def)
  have "fst ` set (clients s') = {ident} \<union> fst ` set (clients s)"
    unfolding c by (rule dom_update)
  with assms(2,3) show ?thesis by simp
next
  case (Socket ident up)
  then have "clients s' = clients s"
    using assms(1) by (auto simp: socketHandler_def Let_def)
  with assms(2,3) show ?thesis by simp
next
  case (Deliver i ok)
  from assms(1) obtain r val rest where
    i: "i < length (handlers s)" "hstate (handlers s ! i) = Delivering"
    and r: "hch (handlers s ! i) = Some r" and buf: "cbuf (chans s ! r) = val # rest"
    by (auto simp: Deliver deliver_def split: if_splits option.splits list.splits)
  let ?s1 = "s\<lparr>chans := (chans s)[r := (chans s ! r)\<lparr>cbuf := rest\<rparr>]\<rparr>"
  show ?thesis
  proof (cases ok)
    case True
    then have "clients s' = clients s"
      using assms(1) i r buf by (auto simp: Deliver deliver_def Let_def)
    with assms(2,3) show ?thesis by simp
  next
    case False
    then have e: "s' = teardown i ?s1"
      using assms(1) i r buf by (auto simp: Deliver deliver_def Let_def)
    have "fst ` set (clients s') = fst ` set (clients s) - {hid (handlers s ! i)}"
      by (auto simp: e teardown_def Let_def AList.delete_eq)
    with assms(2,3) have "hid (handlers s ! i) = k" by auto
    moreover have "hstate (handlers s' ! i) = Closed" "conn_closed (handlers s' ! i)"
      using i by (simp_all add: e teardown_def Let_def)
    ultimately show ?thesis
      using False i Deliver by blast
  qed
next
  case (Publish m)
  then have "clients s' = clients s"
    using assms(1) by (auto simp: publish_frame)
  with assms(2,3) show ?thesis by simp
next
  case (PeerClose i)
  then have "clients s' = clients s"
    using assms(1) by (auto simp: peer_close_def)
  with assms(2,3) show ?thesis by simp
next
  case Health
  then have "clients s' = clients s"
    using assms(1) by (auto simp: healthHandler_def)
  with assms(2,3) show ?thesis by simp
qed

text \<open>
  C9, as the code has it. For a handler in the delivering state with a record in its
  queue, a write that returns an error ends the loop, closes the transport and deletes the
  handler's identifier from the registry. A write that returns no error leaves the handler
  delivering, its transport open and the registry as it was. The peer closing the
  connection changes neither the registry, nor a queue, nor the state or the transport of
  any handler. And whenever a step removes an identifier from the registry, that step is
  the failed write of a delivering handler with that identifier.
\<close>

theorem teardown_on_write_failure_only:
  "(i < length (handlers s) \<and> hstate (handlers s ! i) = Delivering \<and>
    hch (handlers s ! i) = Some r \<and> cbuf (chans s ! r) \<noteq> [] \<longrightarrow>
      (\<exists>s'. deliver i False s = Some s' \<and> hstate (handlers s' ! i) = Closed \<and>
         conn_closed (handlers s' ! i) \<and>
         map_of (clients s') (hid (handlers s ! i)) = None)) \<and>
   (deliver n True u = Some u' \<longrightarrow>
      hstate (handlers u' ! n) = Delivering \<and>
      conn_closed (handlers u' ! n) = conn_closed (handlers u ! n) \<and>
      clients u' = clients u) \<and>
   clients (peer_close m v) = clients v \<and> chans (peer_close m v) = chans v \<and>
   map hstate (handlers (peer_close m v)) = map hstate (handlers v) \<and>
   map conn_closed (handlers (peer_close m v)) = map conn_closed (handlers v) \<and>
   (step t a = Some t' \<and> k \<in> fst ` set (clients t) \<and> k \<notin> fst ` set (clients t') \<longrightarrow>
      (\<exists>j. a = Deliver j False \<and> j < length (handlers t) \<and> hid (handlers t ! j) = k \<and>
         hstate (handlers t ! j) = Delivering \<and>
         hstate (handlers t' ! j) = Closed \<and> conn_closed (handlers t' ! j)))"
  using teardown_on_failed_write [of i s r] loop_goes_on_after_write [of n u u']
    peer_close_inert [of m v] key_removed_only_by_teardown [of t a t' k]
  by blast

theorem teardown_on_write_failure_only_witness:
  "0 < length (handlers example_live) \<and>
   hstate (handlers example_live ! 0) = Delivering \<and>
   hch (handlers example_live ! 0) = Some 0 \<and>
   cbuf (chans example_live ! 0) \<noteq> [] \<and>
   step example_live (Deliver 0 False) = Some example_torn_down \<and>
   ''a'' \<in> fst ` set (clients example_live) \<and>
   ''a'' \<notin> fst ` set (clients example_torn_down) \<and>
   hstate (handlers example_torn_down ! 0) = Closed \<and>
   conn_closed (handlers example_torn_down ! 0) \<and>
   map_of (clients example_torn_down) ''a'' = None \<and>
   deliver 0 True (publish [1] example_peer_closed) = Some example_served_after_close \<and>
   hstate (handlers example_served_after_close ! 0) = Delivering \<and>
   clients example_served_after_close = clients (publish [1] example_peer_closed)"
  using teardown_on_write_failure_only
    [of 0 example_live 0 0 "publish [1] example_peer_closed" example_served_after_close
      0 example_live example_live "Deliver 0 False" example_torn_down "''a''"]
  by (simp add: example_live_def example_torn_down_def example_peer_closed_def
      example_served_after_close_def hub_defs)

text \<open>
  C9 as the spec states it fails. After the peer has closed the connection of a
  subscriber whose queue is empty, the handler is still delivering, the transport is not
  closed, the subscriber is still registered, and the loop cannot move. When a record is
  then published and the transport accepts its write, the record is delivered and again
  nothing is torn down. And a second registration under the same token takes channel 0
  out of the registry while its handler is still delivering.
\<close>

theorem close_without_write_counterexample:
  "run init example_closed_acts = Some example_peer_closed \<and>
   peer_gone (handlers example_peer_closed ! 0) \<and>
   hstate (handlers example_peer_closed ! 0) = Delivering \<and>
   \<not> conn_closed (handlers example_peer_closed ! 0) \<and>
   map_of (clients example_peer_closed) ''a'' = Some 0 \<and>
   deliver 0 True example_peer_closed = None \<and>
   deliver 0 False example_peer_closed = None \<and>
   run example_peer_closed [Publish [1], Deliver 0 True] = Some example_served_after_close \<and>
   hstate (handlers example_served_after_close ! 0) = Delivering \<and>
   \<not> conn_closed (handlers example_served_after_close ! 0) \<and>
   map_of (clients example_served_after_close) ''a'' = Some 0 \<and>
   registered example_live = {0} \<and>
   registered (snd (registerHandler ''a'' example_live)) = {1} \<and>
   hstate (handlers (snd (registerHandler ''a'' example_live)) ! 0) = Delivering"
  by (simp add: example_closed_acts_def example_peer_closed_def example_live_def
      example_served_after_close_def registered_def hub_defs)

section \<open>Order of delivery\<close>

lemma fifo_step:
  assumes w: "hub_inv s" and rd: "reading i r s" and u: "undisturbed i r s a"
    and st: "step s a = Some s'"
  shows "reading i r s' \<and> observed i r s' = observed i r s @ published [a]"
proof -
  from rd have i: "i < length (handlers s)" and del: "hstate (handlers s ! i) = Delivering"
    and ch: "hch (handlers s ! i) = Some r"
    by (simp_all add: reading_def)
  from w i ch have r: "r < length (chans s)"
    by (simp add: hub_inv_def)
  show ?thesis
  proof (cases a)
    case (Register ident)
    then have e: "s' = snd (registerHandler ident s)"
      using st by simp
    show ?thesis
      using i del ch r
      by (simp add: e Register reading_def observed_def registerHandler_def nth_append)
  next
    case (Socket ident up)
    then have e: "s' = snd (socketHandler ident up s)"
      using st by simp
    show ?thesis
      using i del ch r
      by (simp add: e Socket reading_def observed_def socketHandler_def Let_def nth_append)
  next
    case (Deliver j ok)
    from st obtain q val rest where
      j: "j < length (handlers s)" "hstate (handlers s ! j) = Delivering"
      and q: "hch (handlers s ! j) = Some q" and buf: "cbuf (chans s ! q) = val # rest"
      by (auto simp: Deliver deliver_def split: if_splits option.splits list.splits)
    let ?s1 = "s\<lparr>chans := (chans s)[q := (chans s ! q)\<lparr>cbuf := rest\<rparr>]\<rparr>"
    show ?thesis
    proof (cases "j = i")
      case True
      with u Deliver have ok: "ok"
        by simp
      from True q ch have qr: "q = r" by simp
      have e: "s' = ?s1\<lparr>handlers := (handlers s)[i := (handlers s ! i)\<lparr>frames := frames (handlers s ! i) @ [val]\<rparr>]\<rparr>"
        using st j q buf ok True by (simp add: Deliver deliver_def Let_def)
      show ?thesis
        using i del ch r buf
        by (simp add: e qr Deliver reading_def observed_def)
    next
      case False
      with u Deliver q have qr: "q \<noteq> r" by auto
      have "s' = ?s1\<lparr>handlers := (handlers s)[j := (handlers s ! j)\<lparr>frames := frames (handlers s ! j) @ [val]\<rparr>]\<rparr>
          \<or> s' = teardown j ?s1"
        using st j q buf by (auto simp: Deliver deliver_def Let_def split: if_splits)
      then show ?thesis
        using i del ch r False qr
        by (auto simp: Deliver reading_def observed_def teardown_def Let_def)
    qed
  next
    case (Publish m)
    then have e: "s' = publish m s"
      using st by simp
    from u Publish have reg: "r \<in> registered s" and nf: "\<not> chan_full (chans s ! r)"
      by simp_all
    have "chans s' ! r = try_send m (chans s ! r)"
      using w r reg by (simp add: e chans_publish)
    then show ?thesis
      using i del ch nf
      by (simp add: e Publish reading_def observed_def publish_frame try_send_def)
  next
    case (PeerClose j)
    then have e: "s' = peer_close j s"
      using st by simp
    show ?thesis
      using i del ch
      by (simp add: e PeerClose reading_def observed_def peer_close_def nth_upd)
  next
    case Health
    then have e: "s' = s"
      using st by (simp add: healthHandler_def)
    show ?thesis
      using rd by (simp add: e Health)
  qed
qed

lemma published_Cons: "published (a # as) = published [a] @ published as"
  by (cases a) simp_all

lemma fifo_run_observed:
  "hub_inv s \<Longrightarrow> reading i r s \<Longrightarrow> fifo_run i r s acts \<Longrightarrow> run s acts = Some s' \<Longrightarrow>
   reading i r s' \<and> observed i r s' = observed i r s @ published acts"
proof (induction acts arbitrary: s)
  case Nil
  then show ?case by simp
next
  case (Cons a acts)
  from Cons.prems(4) obtain s1 where s1: "step s a = Some s1" and rest: "run s1 acts = Some s'"
    by (auto split: option.splits)
  from Cons.prems(3) s1 have u: "undisturbed i r s a" and f: "fifo_run i r s1 acts"
    by simp_all
  from fifo_step [OF Cons.prems(1,2) u s1]
  have rd1: "reading i r s1" and o1: "observed i r s1 = observed i r s @ published [a]"
    by simp_all
  have w1: "hub_inv s1"
    using Cons.prems(1) s1 by (rule inv_step)
  from Cons.IH [OF w1 rd1 f rest] o1 show ?case
    by (simp add: published_Cons [of a acts])
qed

text \<open>
  C2, as the code has it. Take a reachable state with a handler \<open>i\<close> delivering from
  channel \<open>r\<close>, and any run from it in which every fan-out finds the subscriber registered
  with a queue that is not full, the handler's writes return no error and it is the only
  reader of \<open>r\<close>. Then the frames the handler has written, followed by what is still
  queued, are what they were at the start followed by the published records \<open>P1..Pn\<close> in
  publish order: nothing is lost, duplicated or reordered, and the frames written are
  always a prefix of that sequence.
\<close>

theorem delivery_in_publish_order:
  assumes "run init before = Some s"
    and "i < length (handlers s)" and "hstate (handlers s ! i) = Delivering"
    and "hch (handlers s ! i) = Some r"
    and "fifo_run i r s acts" and "run s acts = Some s'"
  shows "frames (handlers s' ! i) @ cbuf (chans s' ! r) =
           frames (handlers s ! i) @ cbuf (chans s ! r) @ published acts"
proof -
  have w: "hub_inv s"
    using assms(1) by (rule inv_reachable)
  have rd: "reading i r s"
    using assms(2-4) by (simp add: reading_def)
  from fifo_run_observed [OF w rd assms(5,6)] show ?thesis
    by (simp add: observed_def)
qed

lemma run_example_connected: "run init [Register ''a'', Socket ''a'' True] = Some example_connected"
  by (simp add: example_connected_def hub_defs)

lemma run_example_delivered: "run example_connected example_fifo_acts = Some example_delivered"
  by (simp add: example_connected_def example_fifo_acts_def example_delivered_def hub_defs
      registered_def)

lemma fifo_run_example: "fifo_run 0 0 example_connected example_fifo_acts"
  by (simp add: example_connected_def example_fifo_acts_def hub_defs registered_def)

theorem delivery_in_publish_order_witness:
  "run init [Register ''a'', Socket ''a'' True] = Some example_connected \<and>
   0 < length (handlers example_connected) \<and>
   hstate (handlers example_connected ! 0) = Delivering \<and>
   hch (handlers example_connected ! 0) = Some 0 \<and>
   fifo_run 0 0 example_connected example_fifo_acts \<and>
   run example_connected example_fifo_acts = Some example_delivered \<and>
   published example_fifo_acts = [[1], [2], [3]] \<and>
   frames (handlers example_delivered ! 0) @ cbuf (chans example_delivered ! 0) =
     [[1], [2], [3]]"
proof -
  have h: "0 < length (handlers example_connected)"
    "hstate (handlers example_connected ! 0) = Delivering"
    "hch (handlers example_connected ! 0) = Some 0"
    by (simp_all add: example_connected_def)
  have p: "published example_fifo_acts = [[1], [2], [3]]"
    by (simp add: example_fifo_acts_def)
  have z: "frames (handlers example_connected ! 0) @ cbuf (chans example_connected ! 0) = []"
    by (simp add: example_connected_def)
  show ?thesis
    using delivery_in_publish_order
      [OF run_example_connected h fifo_run_example run_example_delivered]
      run_example_connected h fifo_run_example run_example_delivered p z
    by simp
qed

text \<open>
  C2 as the spec states it fails, with a queue that never holds more than two of its ten
  places. When the subscriber has connected twice, the two loops share its queue: one
  writes the first record and the other the second, so neither observes both. When the
  write of the first record returns an error, that record is gone, the loop has ended and
  the second record stays in the queue. And when the subscriber's token has been drawn
  again by another registration, the published record goes to the new channel and the
  connected loop observes nothing.
\<close>

theorem shared_queue_counterexample:
  "run init example_two_acts = Some example_two_queued \<and>
   published example_two_acts = [[1], [2]] \<and>
   \<not> chan_full (chans example_two_queued ! 0) \<and>
   run example_two_queued [Deliver 0 True, Deliver 1 True] = Some example_two_delivered \<and>
   frames (handlers example_two_delivered ! 0) = [[1]] \<and>
   frames (handlers example_two_delivered ! 1) = [[2]] \<and>
   cbuf (chans example_two_delivered ! 0) = [] \<and>
   run example_connected [Publish [1], Publish [2], Deliver 0 False] =
     Some example_write_failed \<and>
   frames (handlers example_write_failed ! 0) = [] \<and>
   hstate (handlers example_write_failed ! 0) = Closed \<and>
   cbuf (chans example_write_failed ! 0) = [[2]] \<and>
   deliver 0 True example_write_failed = None \<and>
   run example_connected [Register ''a'', Publish [1]] = Some example_unreached \<and>
   hch (handlers example_unreached ! 0) = Some 0 \<and>
   frames (handlers example_unreached ! 0) = [] \<and>
   cbuf (chans example_unreached ! 0) = [] \<and>
   deliver 0 True example_unreached = None"
  by (simp add: example_two_acts_def example_two_queued_def example_two_delivered_def
      example_connected_def example_write_failed_def example_unreached_def hub_defs)

section \<open>One pass through the ingestion loop\<close>

lemma iteration_dup:
  "getIp line = prevIp st \<Longrightarrow> iteration e City line st = Continue st"
  by (simp add: iteration_def)

lemma iteration_empty:
  "getIp line = [] \<Longrightarrow> iteration e City line st = Continue st"
  by (simp add: iteration_def)

lemma iteration_error:
  "getIp line \<noteq> prevIp st \<Longrightarrow> getIp line \<noteq> [] \<Longrightarrow> City (resolved e line) = Inl err \<Longrightarrow>
   iteration e City line st =
     Return (st\<lparr>prevIp := getIp line, lookups := lookups st @ [resolved e line],
                stdout := stdout st @ [err]\<rparr>)"
  by (simp add: iteration_def resolved_def Let_def)

lemma iteration_few:
  "getIp line \<noteq> prevIp st \<Longrightarrow> getIp line \<noteq> [] \<Longrightarrow> City (resolved e line) = Inr loc \<Longrightarrow>
   length (FindAllString line) < 2 \<Longrightarrow>
   iteration e City line st =
     Continue (st\<lparr>prevIp := getIp line, lookups := lookups st @ [resolved e line]\<rparr>)"
  by (simp add: iteration_def resolved_def Let_def)

lemma iteration_publish:
  "getIp line \<noteq> prevIp st \<Longrightarrow> getIp line \<noteq> [] \<Longrightarrow> City (resolved e line) = Inr loc \<Longrightarrow>
   2 \<le> length (FindAllString line) \<Longrightarrow>
   iteration e City line st =
     Continue (st\<lparr>prevIp := getIp line, lookups := lookups st @ [resolved e line],
                  hub := publish (encode (distIndex (nfoundDistro (FindAllString line ! 1)))
                           (Latitude loc) (Longitude loc)) (hub st)\<rparr>)"
  by (simp add: iteration_def resolved_def Let_def)

lemma iteration_few_hub:
  assumes "length (FindAllString line) < 2"
  shows "hub (flow_state (iteration e City line st)) = hub st"
proof (cases "getIp line = prevIp st \<or> getIp line = []")
  case True
  then show ?thesis
    by (auto simp: iteration_dup iteration_empty)
next
  case False
  then show ?thesis
    using assms
    by (cases "City (resolved e line)") (simp_all add: iteration_error iteration_few)
qed

lemma iteration_few_continue:
  assumes "length (FindAllString line) < 2" and "\<forall>err. City (resolved e line) \<noteq> Inl err"
  shows "\<exists>st'. iteration e City line st = Continue st' \<and> hub st' = hub st"
proof (cases "getIp line = prevIp st \<or> getIp line = []")
  case True
  then show ?thesis
    by (auto simp: iteration_dup iteration_empty)
next
  case False
  then show ?thesis
    using assms
    by (cases "City (resolved e line)") (simp_all add: iteration_few)
qed

text \<open>
  C6. A line with fewer than two \<^verbatim>\<open>/.../ \<close> matches never has a record published for it,
  whatever the state and the resolver; unless the resolver call of that pass returns an
  error (which ends the loop, see C5) the pass ends in \<^verbatim>\<open>continue\<close>, so the line is
  skipped. A line with two or more matches that reaches classification is published with
  the category taken from the second match, \<^verbatim>\<open>listDistro[1]\<close>.
\<close>

theorem few_segments_not_published:
  "(length (FindAllString line) < 2 \<longrightarrow>
      hub (flow_state (iteration e City line st)) = hub st \<and>
      ((\<forall>err. City (resolved e line) \<noteq> Inl err) \<longrightarrow>
         (\<exists>st'. iteration e City line st = Continue st' \<and> hub st' = hub st))) \<and>
   (2 \<le> length (FindAllString line) \<and> getIp line \<noteq> prevIp st \<and> getIp line \<noteq> [] \<and>
    City (resolved e line) = Inr loc \<longrightarrow>
      iteration e City line st =
        Continue (st\<lparr>prevIp := getIp line, lookups := lookups st @ [resolved e line],
                     hub := publish (encode (distIndex (nfoundDistro (FindAllString line ! 1)))
                              (Latitude loc) (Longitude loc)) (hub st)\<rparr>))"
  using iteration_few_hub [of line e City st] iteration_few_continue [of line City e st]
    iteration_publish [of line st City e loc]
  by blast

lemma fold_distMap_dom:
  "dom (fold (\<lambda>(i, dist) m. m(dist \<mapsto> int i)) xs m) = dom m \<union> snd ` set xs"
  by (induction xs arbitrary: m) (auto split: prod.splits)

lemma distMap_dom: "dom (build_distMap ds) = set ds"
proof -
  have "snd ` set (enumerate 0 ds) = set ds"
    by (simp only: set_map [symmetric] map_snd_enumerate)
  then show ?thesis
    by (simp add: build_distMap_def fold_distMap_dom)
qed

lemma distIndex_unknown: "name \<notin> set distList \<Longrightarrow> distIndex name = 0"
proof -
  assume "name \<notin> set distList"
  then have "name \<notin> dom distMap"
    by (simp add: distMap_def distMap_dom)
  then show ?thesis
    by (auto simp: distIndex_def split: option.splits)
qed

lemma distIndex_first: "distIndex (distList ! 0) = 0"
  by (simp add: distIndex_def distMap_def build_distMap_def distList_def)

lemma encode_first_byte_zero: "encode 0 lat long ! 0 = 0"
  by (simp add: encode_def)

text \<open>
  C7. When the name extracted from the second match (blanks and \<^verbatim>\<open>/\<close> removed) is not in
  the vocabulary, its index is 0, which is also the index of the first vocabulary entry,
  and the record published for the line carries 0 in its first byte.
\<close>

theorem unknown_category_index_zero:
  assumes "getIp line \<noteq> prevIp st" and "getIp line \<noteq> []"
    and "City (resolved e line) = Inr loc" and "2 \<le> length (FindAllString line)"
    and "nfoundDistro (FindAllString line ! 1) \<notin> set distList"
  shows "distIndex (nfoundDistro (FindAllString line ! 1)) = 0 \<and>
         distIndex (distList ! 0) = 0 \<and>
         iteration e City line st =
           Continue (st\<lparr>prevIp := getIp line, lookups := lookups st @ [resolved e line],
                        hub := publish (encode 0 (Latitude loc) (Longitude loc)) (hub st)\<rparr>) \<and>
         encode 0 (Latitude loc) (Longitude loc) ! 0 = 0"
  using iteration_publish [of line st City e loc] assms distIndex_unknown distIndex_first
    encode_first_byte_zero
  by simp

lemma skip_all:
  "\<forall>l \<in> set ls. getIp l = a \<Longrightarrow> a = prevIp st \<or> a = [] \<Longrightarrow> fileIn_loop e City ls st = st"
  by (induction ls) (auto simp: iteration_dup iteration_empty)

lemma iteration_Continue_prev:
  "iteration e City line st = Continue st1 \<Longrightarrow>
   (getIp line = prevIp st1 \<or> getIp line = []) \<and> length (lookups st1) \<le> length (lookups st) + 1"
  by (auto simp: iteration_def Let_def split: if_splits sum.splits)

lemma iteration_Return_lookups:
  "iteration e City line st = Return st1 \<Longrightarrow> length (lookups st1) = length (lookups st) + 1"
  by (auto simp: iteration_def Let_def split: if_splits sum.splits)

lemma run_first_then_skip:
  assumes "\<forall>l \<in> set (line # rest). getIp l = a"
  shows "fileIn_loop e City (line # rest) st = flow_state (iteration e City line st)"
proof (cases "iteration e City line st")
  case (Continue st1)
  from iteration_Continue_prev [OF Continue] assms
  have "a = prevIp st1 \<or> a = []" by auto
  moreover have "\<forall>l \<in> set rest. getIp l = a"
    using assms by simp
  ultimately have "fileIn_loop e City rest st1 = st1"
    by (rule skip_all [rotated])
  then show ?thesis
    by (simp add: Continue)
next
  case (Return st1)
  then show ?thesis by simp
qed

lemma run_lookups_bound:
  "\<forall>l \<in> set ls. getIp l = a \<Longrightarrow>
   length (lookups (fileIn_loop e City ls st)) \<le> length (lookups st) + 1"
proof (cases ls)
  case Nil
  then show ?thesis by simp
next
  case (Cons line rest)
  assume "\<forall>l \<in> set ls. getIp l = a"
  with Cons have eq: "fileIn_loop e City ls st = flow_state (iteration e City line st)"
    using run_first_then_skip [of line rest a e City st] by simp
  have "length (lookups (flow_state (iteration e City line st))) \<le> length (lookups st) + 1"
    by (cases "iteration e City line st")
      (auto dest: iteration_Continue_prev iteration_Return_lookups)
  with eq show ?thesis by simp
qed

lemma run_after_prefix_lookups:
  assumes "\<forall>l \<in> set ls. getIp l = a"
  shows "length (lookups (fileIn_loop e City (pre @ ls) st)) \<le>
           length (lookups (fileIn_loop e City pre st)) + 1"
proof (induction pre arbitrary: st)
  case Nil
  show ?case
    using run_lookups_bound [OF assms] by simp
next
  case (Cons x pre)
  show ?case
  proof (cases "iteration e City x st")
    case (Continue st')
    then show ?thesis
      using Cons.IH [of st'] by simp
  next
    case (Return st')
    then show ?thesis by simp
  qed
qed

text \<open>
  C8. Take a run of consecutive lines that all have the same extracted address. Whatever
  lines of the feed came before it, the loop calls the resolver at most once more while
  it reads the run. And started in any state of the loop, the whole run leaves the loop in
  the state its first line leaves it in: every later line of the run takes the early
  \<^verbatim>\<open>continue\<close>, before the resolver and the matching.
\<close>

theorem same_address_run_one_attempt:
  assumes "\<forall>l \<in> set ls. getIp l = a"
  shows "length (lookups (fileIn_loop e City (pre @ ls) st)) \<le>
           length (lookups (fileIn_loop e City pre st)) + 1 \<and>
         (\<forall>line rest. ls = line # rest \<longrightarrow>
            fileIn_loop e City ls st = flow_state (iteration e City line st))"
  using run_after_prefix_lookups [OF assms] run_first_then_skip [of _ _ a e City st] assms
  by blast

text \<open>
  C5, as the code has it. A line whose address is empty or repeats the previous one, or
  whose resolver call returns no error and which has fewer than two matches, is skipped
  silently: the pass ends in \<^verbatim>\<open>continue\<close>, the loop goes on with the lines that follow,
  nothing is printed and the shared state (all that subscribers can see) is untouched.
\<close>

theorem transient_failure_handling:
  assumes "getIp line = prevIp st \<or> getIp line = [] \<or>
           ((\<exists>loc. City (resolved e line) = Inr loc) \<and> length (FindAllString line) < 2)"
  shows "\<exists>st'. iteration e City line st = Continue st' \<and>
           fileIn_loop e City (line # rest) st = fileIn_loop e City rest st' \<and>
           hub st' = hub st \<and> stdout st' = stdout st"
proof (cases "getIp line = prevIp st \<or> getIp line = []")
  case True
  then have "iteration e City line st = Continue st"
    by (auto simp: iteration_dup iteration_empty)
  then show ?thesis by auto
next
  case False
  with assms obtain loc where
    "City (resolved e line) = Inr loc" "length (FindAllString line) < 2"
    by blast
  with False have "iteration e City line st =
      Continue (st\<lparr>prevIp := getIp line, lookups := lookups st @ [resolved e line]\<rparr>)"
    by (simp add: iteration_few)
  then show ?thesis by auto
qed

section \<open>The ingestion loop on the example feed\<close>

lemma example_getIp:
  "getIp example_line_one = ''203.0.113.5 ''" "getIp example_line_good = ''203.0.113.5 ''"
  "getIp example_line_unknown = ''203.0.113.5 ''" "getIp example_line_bad = ''bogus ''"
  by (simp_all add: getIp_def example_line_one_def example_line_good_def
      example_line_unknown_def example_line_bad_def)

lemma example_resolved:
  "resolved example_env example_line_one = example_addr"
  "resolved example_env example_line_good = example_addr"
  "resolved example_env example_line_unknown = example_addr"
  "resolved example_env example_line_bad = None"
  by (simp_all add: resolved_def example_getIp example_env_def example_TrimSpace_def
      example_ParseIP_def example_addr_def)

lemma example_City_found:
  "example_City example_addr =
     Inr \<lparr>Latitude = 0x4049C00000000000, Longitude = 0xBFB999999999999A\<rparr>"
  "example_City None = Inl ''IP passed to Lookup cannot be nil''"
  by (simp_all add: example_City_def example_addr_def)

lemma example_segments:
  "FindAllString example_line_one = [''/debian HTTP/'']"
  "FindAllString example_line_good = [''/Oct/'', ''/debian/'', ''/ HTTP/'']"
  "FindAllString example_line_unknown = [''/pub/'', ''/focal/'']"
  by (simp_all add: FindAllString_def example_line_one_def example_line_good_def
      example_line_unknown_def)

lemma example_names:
  "nfoundDistro ''/debian/'' = ''debian''" "nfoundDistro ''/focal/'' = ''focal''"
  by (simp_all add: nfoundDistro_def Join_def Replace_slash_def)

lemma example_index: "distIndex ''debian'' = 11" "''focal'' \<notin> set distList"
  by (simp_all add: distIndex_def distMap_def build_distMap_def distList_def)

lemma example_encode:
  "encode c 0x4049C00000000000 0xBFB999999999999A = example_record c"
  by (simp add: encode_def PutUint64_def Float64bits_def drop_bit_eq_div example_record_def)

lemma example_publish: "publish (example_record c) example_connected = example_received c"
  by (simp add: example_connected_def example_received_def hub_defs)

theorem few_segments_not_published_witness:
  "length (FindAllString example_line_one) < 2 \<and>
   iteration example_env example_City example_line_one example_start =
     Continue (example_start\<lparr>prevIp := ''203.0.113.5 '', lookups := [example_addr]\<rparr>) \<and>
   2 \<le> length (FindAllString example_line_good) \<and>
   getIp example_line_good \<noteq> prevIp example_start \<and> getIp example_line_good \<noteq> [] \<and>
   example_City (resolved example_env example_line_good) =
     Inr \<lparr>Latitude = 0x4049C00000000000, Longitude = 0xBFB999999999999A\<rparr> \<and>
   FindAllString example_line_good ! 1 = ''/debian/'' \<and>
   iteration example_env example_City example_line_good example_start =
     Continue (example_start\<lparr>prevIp := ''203.0.113.5 '', lookups := [example_addr],
                 hub := example_received 11\<rparr>)"
proof -
  have one: "length (FindAllString example_line_one) < 2"
    by (simp add: example_segments)
  have ok: "\<forall>err. example_City (resolved example_env example_line_one) \<noteq> Inl err"
    by (simp add: example_resolved example_City_found)
  have two: "2 \<le> length (FindAllString example_line_good)"
    "getIp example_line_good \<noteq> prevIp example_start" "getIp example_line_good \<noteq> []"
    "example_City (resolved example_env example_line_good) =
       Inr \<lparr>Latitude = 0x4049C00000000000, Longitude = 0xBFB999999999999A\<rparr>"
    "FindAllString example_line_good ! 1 = ''/debian/''"
    by (simp_all add: example_segments example_getIp example_start_def example_resolved
        example_City_found)
  have "iteration example_env example_City example_line_good example_start =
     Continue (example_start\<lparr>prevIp := ''203.0.113.5 '', lookups := [example_addr],
                 hub := example_received 11\<rparr>)"
    using few_segments_not_published
      [of example_line_good example_env example_City example_start
        "\<lparr>Latitude = 0x4049C00000000000, Longitude = 0xBFB999999999999A\<rparr>"] two
    by (simp add: example_names example_index example_encode example_getIp example_resolved)
      (simp add: example_start_def example_publish)
  moreover have "iteration example_env example_City example_line_one example_start =
     Continue (example_start\<lparr>prevIp := ''203.0.113.5 '', lookups := [example_addr]\<rparr>)"
    by (simp add: iteration_few [where loc = "\<lparr>Latitude = 0x4049C00000000000, Longitude = 0xBFB999999999999A\<rparr>"]
        example_segments example_getIp example_start_def example_resolved example_City_found)
  ultimately show ?thesis
    using one two by simp
qed


lemma example_iteration_one:
  "iteration example_env example_City example_line_one example_start =
     Continue (example_start\<lparr>prevIp := ''203.0.113.5 '', lookups := [example_addr]\<rparr>)"
proof -
  have "iteration example_env example_City example_line_one example_start =
     Continue (example_start\<lparr>prevIp := getIp example_line_one,
       lookups := lookups example_start @ [resolved example_env example_line_one]\<rparr>)"
    by (rule iteration_few [of example_line_one example_start example_City example_env
          "\<lparr>Latitude = 0x4049C00000000000, Longitude = 0xBFB999999999999A\<rparr>"])
      (simp_all add: example_getIp example_start_def example_resolved example_City_found
        example_segments)
  then show ?thesis
    by (simp add: example_getIp example_resolved example_start_def)
qed

lemma example_iteration_good:
  "iteration example_env example_City example_line_good example_start =
     Continue (example_start\<lparr>prevIp := ''203.0.113.5 '', lookups := [example_addr],
                 hub := example_received 11\<rparr>)"
proof -
  have "iteration example_env example_City example_line_good example_start =
     Continue (example_start\<lparr>prevIp := getIp example_line_good,
       lookups := lookups example_start @ [resolved example_env example_line_good],
       hub := publish (encode (distIndex (nfoundDistro (FindAllString example_line_good ! 1)))
                (Latitude \<lparr>Latitude = 0x4049C00000000000, Longitude = 0xBFB999999999999A\<rparr>)
                (Longitude \<lparr>Latitude = 0x4049C00000000000, Longitude = 0xBFB999999999999A\<rparr>))
              (hub example_start)\<rparr>)"
    by (rule iteration_publish [of example_line_good example_start example_City example_env])
      (simp_all add: example_getIp example_start_def example_resolved example_City_found
        example_segments)
  then show ?thesis
    by (simp add: example_getIp example_resolved example_segments example_names example_index
        example_encode example_start_def example_publish)
qed

lemma example_iteration_bad:
  "iteration example_env example_City example_line_bad example_start =
     Return (example_start\<lparr>prevIp := ''bogus '', lookups := [None],
               stdout := [''IP passed to Lookup cannot be nil'']\<rparr>)"
proof -
  have "iteration example_env example_City example_line_bad example_start =
     Return (example_start\<lparr>prevIp := getIp example_line_bad,
       lookups := lookups example_start @ [resolved example_env example_line_bad],
       stdout := stdout example_start @ [''IP passed to Lookup cannot be nil'']\<rparr>)"
    by (rule iteration_error [of example_line_bad example_start example_City example_env])
      (simp_all add: example_getIp example_start_def example_resolved example_City_found)
  then show ?thesis
    by (simp add: example_getIp example_resolved example_start_def)
qed

theorem unknown_category_index_zero_witness:
  "getIp example_line_unknown \<noteq> prevIp example_start \<and> getIp example_line_unknown \<noteq> [] \<and>
   example_City (resolved example_env example_line_unknown) =
     Inr \<lparr>Latitude = 0x4049C00000000000, Longitude = 0xBFB999999999999A\<rparr> \<and>
   2 \<le> length (FindAllString example_line_unknown) \<and>
   nfoundDistro (FindAllString example_line_unknown ! 1) = ''focal'' \<and>
   ''focal'' \<notin> set distList \<and>
   distIndex ''focal'' = 0 \<and> distIndex ''alpine'' = 0 \<and>
   iteration example_env example_City example_line_unknown example_start =
     Continue (example_start\<lparr>prevIp := ''203.0.113.5 '', lookups := [example_addr],
                 hub := example_received 0\<rparr>) \<and>
   example_record 0 ! 0 = 0"
proof -
  have h: "getIp example_line_unknown \<noteq> prevIp example_start"
    "getIp example_line_unknown \<noteq> []"
    "example_City (resolved example_env example_line_unknown) =
       Inr \<lparr>Latitude = 0x4049C00000000000, Longitude = 0xBFB999999999999A\<rparr>"
    "2 \<le> length (FindAllString example_line_unknown)"
    by (simp_all add: example_segments example_getIp example_start_def example_resolved
        example_City_found)
  have n: "nfoundDistro (FindAllString example_line_unknown ! 1) = ''focal''"
    by (simp add: example_segments example_names)
  have u: "nfoundDistro (FindAllString example_line_unknown ! 1) \<notin> set distList"
    unfolding n by (rule example_index(2))
  have a: "distList ! 0 = ''alpine''"
    by (simp add: distList_def)
  have p: "publish (example_record 0) (hub example_start) = example_received 0"
    by (simp add: example_start_def example_publish)
  have l: "lookups example_start = []"
    by (simp add: example_start_def)
  from unknown_category_index_zero
      [of example_line_unknown example_start example_City example_env
        "\<lparr>Latitude = 0x4049C00000000000, Longitude = 0xBFB999999999999A\<rparr>"] h u
  have "distIndex ''focal'' = 0" "distIndex ''alpine'' = 0"
    "iteration example_env example_City example_line_unknown example_start =
     Continue (example_start\<lparr>prevIp := ''203.0.113.5 '', lookups := [example_addr],
                 hub := example_received 0\<rparr>)"
    unfolding n a
    by (simp_all add: example_encode example_getIp example_resolved p l)
  moreover have "example_record 0 ! 0 = 0"
    by (simp add: example_record_def)
  ultimately show ?thesis
    using h n example_index(2) by simp
qed

theorem same_address_run_one_attempt_witness:
  "getIp example_line_good = ''203.0.113.5 '' \<and> getIp example_line_unknown = ''203.0.113.5 '' \<and>
   getIp example_line_one = ''203.0.113.5 '' \<and>
   fileIn_loop example_env example_City
       [example_line_good, example_line_unknown, example_line_one] example_start =
     example_start\<lparr>prevIp := ''203.0.113.5 '', lookups := [example_addr],
        hub := example_received 11\<rparr> \<and>
   length (lookups (fileIn_loop example_env example_City
       [example_line_good, example_line_unknown, example_line_one] example_start)) = 1 \<and>
   length (lookups (fileIn_loop example_env example_City [] example_start)) = 0"
proof -
  have a: "\<forall>l \<in> set [example_line_good, example_line_unknown, example_line_one].
      getIp l = ''203.0.113.5 ''"
    by (simp add: example_getIp)
  from same_address_run_one_attempt
    [OF a, where e = example_env and City = example_City and st = example_start and pre = "[]"]
  have "fileIn_loop example_env example_City
       [example_line_good, example_line_unknown, example_line_one] example_start =
     flow_state (iteration example_env example_City example_line_good example_start)"
    by simp
  then have eq: "fileIn_loop example_env example_City
       [example_line_good, example_line_unknown, example_line_one] example_start =
     example_start\<lparr>prevIp := ''203.0.113.5 '', lookups := [example_addr],
        hub := example_received 11\<rparr>"
    by (simp only: example_iteration_good flow_state.simps)
  have "length (lookups (fileIn_loop example_env example_City [] example_start)) = 0"
    by (simp add: example_start_def)
  then show ?thesis
    unfolding eq by (simp add: example_getIp)
qed

theorem transient_failure_handling_witness:
  "((\<exists>loc. example_City (resolved example_env example_line_one) = Inr loc) \<and>
      length (FindAllString example_line_one) < 2) \<and>
   iteration example_env example_City example_line_one example_start =
     Continue (example_start\<lparr>prevIp := ''203.0.113.5 '', lookups := [example_addr]\<rparr>) \<and>
   fileIn_loop example_env example_City [example_line_one, example_line_bad] example_start =
     fileIn_loop example_env example_City [example_line_bad]
       (example_start\<lparr>prevIp := ''203.0.113.5 '', lookups := [example_addr]\<rparr>) \<and>
   hub (example_start\<lparr>prevIp := ''203.0.113.5 '', lookups := [example_addr]\<rparr>) =
     hub example_start \<and>
   stdout (example_start\<lparr>prevIp := ''203.0.113.5 '', lookups := [example_addr]\<rparr>) =
     stdout example_start"
proof -
  have one: "(\<exists>loc. example_City (resolved example_env example_line_one) = Inr loc) \<and>
      length (FindAllString example_line_one) < 2"
    by (simp add: example_resolved example_City_found example_segments)
  then have "getIp example_line_one = prevIp example_start \<or> getIp example_line_one = [] \<or>
      ((\<exists>loc. example_City (resolved example_env example_line_one) = Inr loc) \<and>
       length (FindAllString example_line_one) < 2)"
    by simp
  with transient_failure_handling
    [of example_line_one example_start example_City example_env "[example_line_bad]"]
  obtain st' where
    "iteration example_env example_City example_line_one example_start = Continue st'"
    "fileIn_loop example_env example_City [example_line_one, example_line_bad] example_start =
       fileIn_loop example_env example_City [example_line_bad] st'"
    by blast
  then show ?thesis
    using one by (auto simp: example_iteration_one)
qed

text \<open>
  C5 as the spec states it fails: the first line has an address that does not parse, the
  resolver rejects the nil address, the error is printed and the loop ends without
  ingesting the second line, which on its own would have been published.
\<close>

theorem resolver_error_ends_loop_counterexample:
  "fileIn example_env [example_line_bad, example_line_good] example_connected =
     \<lparr>prevIp = ''bogus '', lookups = [None],
      stdout = [''IP passed to Lookup cannot be nil''], hub = example_connected\<rparr> \<and>
   fileIn example_env [example_line_good] example_connected =
     \<lparr>prevIp = ''203.0.113.5 '', lookups = [example_addr], stdout = [],
      hub = example_received 11\<rparr>"
proof -
  have o: "geoip2_Open example_env = Inr example_City"
    by (simp add: example_env_def)
  have s: "\<lparr>prevIp = [], lookups = [], stdout = [], hub = example_connected\<rparr> = example_start"
    by (simp add: example_start_def)
  have "fileIn example_env [example_line_bad, example_line_good] example_connected =
      example_start\<lparr>prevIp := ''bogus '', lookups := [None],
        stdout := [''IP passed to Lookup cannot be nil'']\<rparr>"
    and "fileIn example_env [example_line_good] example_connected =
      example_start\<lparr>prevIp := ''203.0.113.5 '', lookups := [example_addr],
        hub := example_received 11\<rparr>"
    by (simp_all add: fileIn_def o s example_iteration_bad example_iteration_good)
  then show ?thesis
    by (simp add: example_start_def)
qed

end
